theory Spec2Isabelle
  imports Complex_Main "HOL-Library.Sublist" "HOL-Library.Multiset"
    "HOL-Library.Char_ord" "HOL-Library.List_Lexorder"
begin

section \<open>Exceptions and rendering of values\<close>

text \<open>
  An exception is represented by its class and the text it carries: its message, and
  for \<^verbatim>\<open>KeyError\<close> the missing key. The classes are those of \<^verbatim>\<open>exceptions.py\<close>
  that the cache and the rate limiter raise, the built-in exceptions that a dictionary
  or store access can raise, and \<open>ProviderError\<close> for any failure of a wrapped fetch
  function. \<open>exc_str\<close> is \<^verbatim>\<open>str(e)\<close>, which shows the key of a \<^verbatim>\<open>KeyError\<close> in
  quotes.
\<close>

datatype py_error =
    RateLimitError string
  | CacheError string
  | KeyError string
  | ValueError string
  | ProviderError string

fun exc_str :: "py_error \<Rightarrow> string" where
  "exc_str (RateLimitError m) = m"
| "exc_str (CacheError m) = m"
| "exc_str (KeyError k) = CHR 0x27 # k @ [CHR 0x27]"
| "exc_str (ValueError m) = m"
| "exc_str (ProviderError m) = m"

text \<open>\<^verbatim>\<open>str\<close> of an integer: its decimal digits, with a minus sign when negative.\<close>

definition digit_char :: "nat \<Rightarrow> char" where
  "digit_char d = ''0123456789'' ! d"

fun str_nat :: "nat \<Rightarrow> string" where
  "str_nat n = (if n < 10 then [digit_char n] else str_nat (n div 10) @ [digit_char (n mod 10)])"

declare str_nat.simps [simp del]

definition str_int :: "int \<Rightarrow> string" where
  "str_int i = (if i < 0 then CHR ''-'' # str_nat (nat (- i)) else str_nat (nat i))"

section \<open>The sliding-window rate limiter (rate\_limiter.py)\<close>

text \<open>
  \<^verbatim>\<open>time.time()\<close> is read inside the methods; the model takes each reading as an
  argument. Timestamps are real numbers. The dictionary \<^verbatim>\<open>_requests\<close> maps a key to
  its deque, oldest timestamp first.
\<close>

record rate_limiter =
  max_requests :: int
  time_window :: int
  requests :: "string \<rightharpoonup> real list"

definition RateLimiter_init :: "int \<Rightarrow> int \<Rightarrow> rate_limiter" where
  "RateLimiter_init mr tw = \<lparr>max_requests = mr, time_window = tw, requests = Map.empty\<rparr>"

text \<open>The \<^verbatim>\<open>while\<close> loop of \<^verbatim>\<open>_clean_old_requests\<close>: pop from the left while the
  deque is not empty and its first timestamp is before the bound.\<close>

fun popleft_old :: "real \<Rightarrow> real list \<Rightarrow> real list" where
  "popleft_old bound [] = []"
| "popleft_old bound (t # ts) = (if t < bound then popleft_old bound ts else t # ts)"

definition clean_old_requests :: "rate_limiter \<Rightarrow> string \<Rightarrow> real \<Rightarrow> rate_limiter" where
  "clean_old_requests rl key current_time =
     (case requests rl key of
        None \<Rightarrow> rl
      | Some w \<Rightarrow>
          rl\<lparr>requests := (requests rl)
            (key \<mapsto> popleft_old (current_time - real_of_int (time_window rl)) w)\<rparr>)"

text \<open>\<^verbatim>\<open>self._requests[key]\<close> raises \<^verbatim>\<open>KeyError\<close> on a missing key; the model keeps
  that branch.\<close>

definition check_limit ::
  "rate_limiter \<Rightarrow> string \<Rightarrow> real \<Rightarrow> (py_error + bool) \<times> rate_limiter" where
  "check_limit rl key current_time =
     (let rl1 = (if requests rl key = None
                 then rl\<lparr>requests := (requests rl)(key \<mapsto> [])\<rparr> else rl);
          rl2 = clean_old_requests rl1 key current_time
      in case requests rl2 key of
           None \<Rightarrow> (Inl (KeyError key), rl2)
         | Some w \<Rightarrow> (Inr (int (length w) < max_requests rl2), rl2))"

definition rate_limit_message :: "rate_limiter \<Rightarrow> string \<Rightarrow> string" where
  "rate_limit_message rl key =
     ''Rate limit exceeded for '' @ key @ ''. '' @
     ''Maximum '' @ str_int (max_requests rl) @ '' requests per '' @
     str_int (time_window rl) @ ''s''"

text \<open>\<^verbatim>\<open>record_request\<close> reads the clock twice: once inside \<^verbatim>\<open>check_limit\<close>
  (\<open>t_check\<close>) and once for the timestamp it appends (\<open>t_append\<close>).\<close>

definition record_request ::
  "rate_limiter \<Rightarrow> string \<Rightarrow> real \<Rightarrow> real \<Rightarrow> (py_error + unit) \<times> rate_limiter" where
  "record_request rl key t_check t_append =
     (case check_limit rl key t_check of
        (Inl e, rl1) \<Rightarrow> (Inl e, rl1)
      | (Inr ok, rl1) \<Rightarrow>
          if \<not> ok then (Inl (RateLimitError (rate_limit_message rl1 key)), rl1)
          else
            (let rl2 = (if requests rl1 key = None
                        then rl1\<lparr>requests := (requests rl1)(key \<mapsto> [])\<rparr> else rl1)
             in case requests rl2 key of
                  None \<Rightarrow> (Inl (KeyError key), rl2)
                | Some w \<Rightarrow>
                    (Inr (), rl2\<lparr>requests := (requests rl2)(key \<mapsto> w @ [t_append])\<rparr>)))"

definition get_remaining_requests ::
  "rate_limiter \<Rightarrow> string \<Rightarrow> real \<Rightarrow> (py_error + int) \<times> rate_limiter" where
  "get_remaining_requests rl key current_time =
     (if requests rl key = None then (Inr (max_requests rl), rl)
      else
        (let rl1 = clean_old_requests rl key current_time
         in case requests rl1 key of
              None \<Rightarrow> (Inl (KeyError key), rl1)
            | Some w \<Rightarrow> (Inr (max 0 (max_requests rl1 - int (length w))), rl1)))"

definition reset :: "rate_limiter \<Rightarrow> string \<Rightarrow> rate_limiter" where
  "reset rl key =
     (if requests rl key \<noteq> None then rl\<lparr>requests := (requests rl)(key \<mapsto> [])\<rparr> else rl)"

definition reset_all :: "rate_limiter \<Rightarrow> rate_limiter" where
  "reset_all rl = rl\<lparr>requests := Map.empty\<rparr>"

text \<open>The window of a key as \<^verbatim>\<open>check_limit\<close> sees it: a key never seen has the empty
  deque that \<^verbatim>\<open>check_limit\<close> creates for it.\<close>

definition window :: "rate_limiter \<Rightarrow> string \<Rightarrow> real list" where
  "window rl key = (case requests rl key of None \<Rightarrow> [] | Some w \<Rightarrow> w)"

definition rl_example :: rate_limiter where
  "rl_example = \<lparr>max_requests = 3, time_window = 60,
     requests = [''binance'' \<mapsto> [1, 5, 58, 61]]\<rparr>"

text \<open>
  A history of calls on one limiter. Each call carries the clock readings it makes, in
  the order it makes them; \<open>rl_step\<close> gives the limiter after the call, whether or not
  the call raised.
\<close>

datatype rl_op =
    CheckLimit string real
  | RecordRequest string real real
  | GetRemaining string real
  | Reset string
  | ResetAll

fun rl_step :: "rate_limiter \<Rightarrow> rl_op \<Rightarrow> rate_limiter" where
  "rl_step rl (CheckLimit key t) = snd (check_limit rl key t)"
| "rl_step rl (RecordRequest key t1 t2) = snd (record_request rl key t1 t2)"
| "rl_step rl (GetRemaining key t) = snd (get_remaining_requests rl key t)"
| "rl_step rl (Reset key) = reset rl key"
| "rl_step rl ResetAll = reset_all rl"

fun op_times :: "rl_op \<Rightarrow> real list" where
  "op_times (CheckLimit key t) = [t]"
| "op_times (RecordRequest key t1 t2) = [t1, t2]"
| "op_times (GetRemaining key t) = [t]"
| "op_times (Reset key) = []"
| "op_times ResetAll = []"

definition rl_run :: "rate_limiter \<Rightarrow> rl_op list \<Rightarrow> rate_limiter" where
  "rl_run rl ops = foldl rl_step rl ops"

text \<open>The clock readings of a history, in order; a monotonic clock makes them sorted.\<close>

definition clock_readings :: "rl_op list \<Rightarrow> real list" where
  "clock_readings ops = concat (map op_times ops)"

text \<open>Two invariants of a limiter state. The length bound: every window holds at most
  \<open>max_requests\<close> timestamps. The time order, relative to the latest clock reading \<open>T\<close>:
  every window is in time order and holds no timestamp after \<open>T\<close>.\<close>

definition window_bounded :: "rate_limiter \<Rightarrow> bool" where
  "window_bounded rl \<longleftrightarrow>
     (\<forall>key w. requests rl key = Some w \<longrightarrow> int (length w) \<le> max_requests rl)"

definition window_ordered :: "real \<Rightarrow> rate_limiter \<Rightarrow> bool" where
  "window_ordered T rl \<longleftrightarrow>
     (\<forall>key w. requests rl key = Some w \<longrightarrow> sorted w \<and> (\<forall>t \<in> set w. t \<le> T))"

text \<open>A history in which the clock goes back: a request recorded at reading 100, then one
  recorded at reading 50.\<close>

definition rl_clock_back :: "rl_op list" where
  "rl_clock_back = [RecordRequest ''binance'' 100 100, RecordRequest ''binance'' 50 50]"

definition rl_history :: "rl_op list" where
  "rl_history =
     [RecordRequest ''binance'' 0 0, RecordRequest ''binance'' 10 10,
      RecordRequest ''binance'' 20 21, RecordRequest ''binance'' 30 30,
      GetRemaining ''kraken'' 40, CheckLimit ''binance'' 65]"

section \<open>The cache manager (cache.py)\<close>

text \<open>
  Python values that are cached or passed as arguments. \<^verbatim>\<open>None\<close> is a value of its own:
  it is what a lookup returns for a missing key and it can also be stored.
\<close>

datatype pyval = PyNone | PyBool bool | PyInt int | PyStr string

fun py_str :: "pyval \<Rightarrow> string" where
  "py_str PyNone = ''None''"
| "py_str (PyBool b) = (if b then ''True'' else ''False'')"
| "py_str (PyInt i) = str_int i"
| "py_str (PyStr s) = s"

subsection \<open>The store behind the manager\<close>

text \<open>
  \<^verbatim>\<open>CacheManager\<close> keeps its entries in a \<^verbatim>\<open>TTLCache\<close> of the imported cachetools
  library, whose source is not part of the repository. The manager is therefore
  written over a store given by its operations: each takes the store and the clock
  reading the store makes, and returns its outcome (an exception or a result) and the
  store afterwards. \<open>st_get\<close> is \<^verbatim>\<open>_cache.get(key)\<close>, which answers \<^verbatim>\<open>None\<close> for a
  missing key; \<open>st_set\<close> is \<^verbatim>\<open>_cache[key] = value\<close>; \<open>st_contains\<close> is
  \<^verbatim>\<open>key in _cache\<close>; \<open>st_delete\<close> is \<^verbatim>\<open>del _cache[key]\<close>; \<open>st_clear\<close> is
  \<^verbatim>\<open>_cache.clear()\<close>; \<open>st_len\<close> is \<^verbatim>\<open>len(_cache)\<close>; \<open>st_maxsize\<close> is
  \<^verbatim>\<open>_cache.maxsize\<close>.
\<close>

record 's store_ops =
  st_get :: "'s \<Rightarrow> string \<Rightarrow> real \<Rightarrow> (py_error + pyval) \<times> 's"
  st_set :: "'s \<Rightarrow> string \<Rightarrow> pyval \<Rightarrow> real \<Rightarrow> (py_error + unit) \<times> 's"
  st_contains :: "'s \<Rightarrow> string \<Rightarrow> real \<Rightarrow> (py_error + bool) \<times> 's"
  st_delete :: "'s \<Rightarrow> string \<Rightarrow> real \<Rightarrow> (py_error + unit) \<times> 's"
  st_clear :: "'s \<Rightarrow> real \<Rightarrow> (py_error + unit) \<times> 's"
  st_len :: "'s \<Rightarrow> real \<Rightarrow> int"
  st_maxsize :: "'s \<Rightarrow> int"

subsection \<open>CacheManager\<close>

text \<open>The dictionary \<^verbatim>\<open>_stats\<close> has exactly the keys \<^verbatim>\<open>hits\<close>, \<^verbatim>\<open>misses\<close> and
  \<^verbatim>\<open>errors\<close>; they are the fields of the record.\<close>

record 's cache_manager =
  cache :: 's
  hits :: int
  misses :: int
  errors :: int

definition CacheManager_init :: "'s \<Rightarrow> 's cache_manager" where
  "CacheManager_init store = \<lparr>cache = store, hits = 0, misses = 0, errors = 0\<rparr>"

definition CacheManager_get ::
  "'s store_ops \<Rightarrow> 's cache_manager \<Rightarrow> string \<Rightarrow> real
     \<Rightarrow> (py_error + pyval) \<times> 's cache_manager" where
  "CacheManager_get S cm key now =
     (case st_get S (cache cm) key now of
        (Inr v, c) \<Rightarrow>
          if v \<noteq> PyNone then (Inr v, cm\<lparr>cache := c, hits := hits cm + 1\<rparr>)
          else (Inr v, cm\<lparr>cache := c, misses := misses cm + 1\<rparr>)
      | (Inl e, c) \<Rightarrow>
          (Inl (CacheError (''Failed to get cache key '' @ key @ '': '' @ exc_str e)),
           cm\<lparr>cache := c, errors := errors cm + 1\<rparr>))"

definition CacheManager_set ::
  "'s store_ops \<Rightarrow> 's cache_manager \<Rightarrow> string \<Rightarrow> pyval \<Rightarrow> real
     \<Rightarrow> (py_error + unit) \<times> 's cache_manager" where
  "CacheManager_set S cm key v now =
     (case st_set S (cache cm) key v now of
        (Inr u, c) \<Rightarrow> (Inr (), cm\<lparr>cache := c\<rparr>)
      | (Inl e, c) \<Rightarrow>
          (Inl (CacheError (''Failed to set cache key '' @ key @ '': '' @ exc_str e)),
           cm\<lparr>cache := c, errors := errors cm + 1\<rparr>))"

definition CacheManager_delete ::
  "'s store_ops \<Rightarrow> 's cache_manager \<Rightarrow> string \<Rightarrow> real
     \<Rightarrow> (py_error + unit) \<times> 's cache_manager" where
  "CacheManager_delete S cm key now =
     (let fail = (\<lambda>e c.
            (Inl (CacheError (''Failed to delete cache key '' @ key @ '': '' @ exc_str e)),
             cm\<lparr>cache := c, errors := errors cm + 1\<rparr>))
      in case st_contains S (cache cm) key now of
           (Inl e, c) \<Rightarrow> fail e c
         | (Inr present, c) \<Rightarrow>
             if present then
               (case st_delete S c key now of
                  (Inl e, c') \<Rightarrow> fail e c'
                | (Inr u, c') \<Rightarrow> (Inr (), cm\<lparr>cache := c'\<rparr>))
             else (Inr (), cm\<lparr>cache := c\<rparr>))"

definition CacheManager_clear ::
  "'s store_ops \<Rightarrow> 's cache_manager \<Rightarrow> real \<Rightarrow> (py_error + unit) \<times> 's cache_manager" where
  "CacheManager_clear S cm now =
     (case st_clear S (cache cm) now of
        (Inr u, c) \<Rightarrow> (Inr (), cm\<lparr>cache := c\<rparr>)
      | (Inl e, c) \<Rightarrow>
          (Inl (CacheError (''Failed to clear cache: '' @ exc_str e)),
           cm\<lparr>cache := c, errors := errors cm + 1\<rparr>))"

text \<open>
  The hit rate is computed in floating point. A Python float is a binary64 number and
  is represented by the real number it stands for; each operation gives the binary64
  number nearest to the exact result, a tie going to the even significand. \<open>fl\<close> is that
  rounding for magnitudes below \<open>2 ^ 53\<close>, which covers every value computed here
  (none exceeds 100): the value is scaled by powers of two until its significand has
  53 bits, or until the exponent of the smallest subnormal number, \<open>-1074\<close>, is
  reached, then rounded to an integer and scaled back.
\<close>

definition round_half_even :: "real \<Rightarrow> int" where
  "round_half_even y =
     (let f = \<lfloor>y\<rfloor>; d = y - of_int f
      in if d < 1 / 2 then f
         else if 1 / 2 < d then f + 1
         else if even f then f else f + 1)"

function ulp_scale :: "real \<Rightarrow> int \<Rightarrow> real \<times> int" where
  "ulp_scale x e = (if x < 2 ^ 52 \<and> - 1074 < e then ulp_scale (2 * x) (e - 1) else (x, e))"
  by pat_completeness auto
termination
  by (relation "measure (\<lambda>(x, e). nat (e + 1074))") auto

declare ulp_scale.simps [simp del]

definition fl :: "real \<Rightarrow> real" where
  "fl x =
     (if x = 0 then 0
      else (case ulp_scale \<bar>x\<bar> 0 of
              (y, e) \<Rightarrow> sgn x * of_int (round_half_even y) / 2 ^ nat (- e)))"

text \<open>\<^verbatim>\<open>a / b\<close> on integers and \<^verbatim>\<open>x * 100\<close> on a float: the exact result, rounded.\<close>

definition int_truediv :: "int \<Rightarrow> int \<Rightarrow> real" where
  "int_truediv a b = fl (of_int a / of_int b)"

definition float_mul :: "real \<Rightarrow> real \<Rightarrow> real" where
  "float_mul x y = fl (x * y)"

text \<open>
  \<^verbatim>\<open>round(x, 2)\<close> on a float: the exact value of \<open>x\<close> is rounded to the nearest multiple
  of one hundredth, a tie going to the even neighbour, and the result is the float
  nearest to that decimal number.
\<close>

definition py_round2 :: "real \<Rightarrow> real" where
  "py_round2 x = fl (of_int (round_half_even (x * 100)) / 100)"

record cache_stats =
  stat_hits :: int
  stat_misses :: int
  stat_errors :: int
  total_requests :: int
  hit_rate_percent :: real
  current_size :: int
  max_size :: int

definition get_stats :: "'s store_ops \<Rightarrow> 's cache_manager \<Rightarrow> real \<Rightarrow> cache_stats" where
  "get_stats S cm now =
     (let total = hits cm + misses cm;
          hit_rate = (if total > 0 then float_mul (int_truediv (hits cm) total) 100 else 0)
      in \<lparr>stat_hits = hits cm, stat_misses = misses cm, stat_errors = errors cm,
          total_requests = total, hit_rate_percent = py_round2 hit_rate,
          current_size = st_len S (cache cm) now, max_size = st_maxsize S (cache cm)\<rparr>)"

subsection \<open>Key construction\<close>

text \<open>\<^verbatim>\<open>sep.join(parts)\<close>.\<close>

fun join :: "string \<Rightarrow> string list \<Rightarrow> string" where
  "join sep [] = []"
| "join sep [p] = p"
| "join sep (p # q # ps) = p @ sep @ join sep (q # ps)"

text \<open>
  \<^verbatim>\<open>build_key(*args, **kwargs)\<close>. The named arguments are a dictionary: an association
  list with distinct names, in the order the caller supplied them.
  \<^verbatim>\<open>sorted(kwargs.items())\<close> orders the (name, value) pairs; the names being distinct,
  that is the order of the names.
\<close>

definition render_named :: "string \<times> pyval \<Rightarrow> string" where
  "render_named kv = fst kv @ ''='' @ py_str (snd kv)"

text \<open>The list \<^verbatim>\<open>parts\<close> once both groups of arguments are rendered.\<close>

definition key_parts :: "pyval list \<Rightarrow> (string \<times> pyval) list \<Rightarrow> string list" where
  "key_parts args kwargs =
     (let parts = map py_str args
      in parts @ map render_named (sort_key fst kwargs))"

definition build_key :: "pyval list \<Rightarrow> (string \<times> pyval) list \<Rightarrow> string" where
  "build_key args kwargs = join '':'' (key_parts args kwargs)"

subsection \<open>The caching decorator\<close>

text \<open>
  The wrapped function is any function of its arguments and of the world outside the
  cache; it returns a value or raises, and may change the world. The wrappers work on the
  cache manager, the world, and a count of the calls made to the wrapped function.
  \<open>t_get\<close> and \<open>t_set\<close> are the clock readings of the lookup and of the store.
\<close>

type_synonym 'w fetch = "pyval list \<Rightarrow> (string \<times> pyval) list \<Rightarrow> 'w \<Rightarrow> (py_error + pyval) \<times> 'w"

record ('s, 'w) env =
  manager :: "'s cache_manager"
  world :: 'w
  fetch_calls :: nat

definition sync_wrapper ::
  "'s store_ops \<Rightarrow> string \<Rightarrow> string \<Rightarrow> 'w fetch \<Rightarrow> pyval list \<Rightarrow> (string \<times> pyval) list
     \<Rightarrow> real \<Rightarrow> real \<Rightarrow> ('s, 'w) env \<Rightarrow> (py_error + pyval) \<times> ('s, 'w) env" where
  "sync_wrapper S key_prefix func_name func args kwargs t_get t_set env =
     (let cache_key = key_prefix @ '':'' @ func_name @ '':'' @ build_key args kwargs
      in case CacheManager_get S (manager env) cache_key t_get of
           (Inl e, cm1) \<Rightarrow> (Inl e, env\<lparr>manager := cm1\<rparr>)
         | (Inr cached_value, cm1) \<Rightarrow>
             if cached_value \<noteq> PyNone then (Inr cached_value, env\<lparr>manager := cm1\<rparr>)
             else
               (case func args kwargs (world env) of
                  (Inl e, w1) \<Rightarrow>
                    (Inl e, env\<lparr>manager := cm1, world := w1,
                                fetch_calls := fetch_calls env + 1\<rparr>)
                | (Inr result, w1) \<Rightarrow>
                    (case CacheManager_set S cm1 cache_key result t_set of
                       (Inl e, cm2) \<Rightarrow>
                         (Inl e, env\<lparr>manager := cm2, world := w1,
                                     fetch_calls := fetch_calls env + 1\<rparr>)
                     | (Inr u, cm2) \<Rightarrow>
                         (Inr result, env\<lparr>manager := cm2, world := w1,
                                          fetch_calls := fetch_calls env + 1\<rparr>))))"

text \<open>\<^verbatim>\<open>async_wrapper\<close> has the same body, with the call awaited.\<close>

definition async_wrapper ::
  "'s store_ops \<Rightarrow> string \<Rightarrow> string \<Rightarrow> 'w fetch \<Rightarrow> pyval list \<Rightarrow> (string \<times> pyval) list
     \<Rightarrow> real \<Rightarrow> real \<Rightarrow> ('s, 'w) env \<Rightarrow> (py_error + pyval) \<times> ('s, 'w) env" where
  "async_wrapper S key_prefix func_name func args kwargs t_get t_set env =
     (let cache_key = key_prefix @ '':'' @ func_name @ '':'' @ build_key args kwargs
      in case CacheManager_get S (manager env) cache_key t_get of
           (Inl e, cm1) \<Rightarrow> (Inl e, env\<lparr>manager := cm1\<rparr>)
         | (Inr cached_value, cm1) \<Rightarrow>
             if cached_value \<noteq> PyNone then (Inr cached_value, env\<lparr>manager := cm1\<rparr>)
             else
               (case func args kwargs (world env) of
                  (Inl e, w1) \<Rightarrow>
                    (Inl e, env\<lparr>manager := cm1, world := w1,
                                fetch_calls := fetch_calls env + 1\<rparr>)
                | (Inr result, w1) \<Rightarrow>
                    (case CacheManager_set S cm1 cache_key result t_set of
                       (Inl e, cm2) \<Rightarrow>
                         (Inl e, env\<lparr>manager := cm2, world := w1,
                                     fetch_calls := fetch_calls env + 1\<rparr>)
                     | (Inr u, cm2) \<Rightarrow>
                         (Inr result, env\<lparr>manager := cm2, world := w1,
                                          fetch_calls := fetch_calls env + 1\<rparr>))))"

subsection \<open>The time-expiring store\<close>

text \<open>
  Modelled from the spec: the store \<^verbatim>\<open>TTLCache\<close> that \<^verbatim>\<open>cache.py\<close> imports from the
  cachetools library is not among the sources; this is the CacheStore of the
  specification (its data model and section 4.1). An entry is a key, a value and an
  expiry time, the insertion time plus \<open>ttl\<close>; the entries are kept oldest first, in
  insertion and access order. A lookup returns the value of an entry that has not
  expired (\<open>now < expiry\<close>) and moves it to the newest end; an expired entry is treated as
  absent and dropped. An insertion drops the expired entries, overwrites an existing
  key or, for a new key at capacity, evicts the oldest entry first, and sets the expiry
  to \<open>now + ttl\<close>. A deletion removes the key if it is there. The size is the number of
  stored entries. A store whose capacity
  cannot hold one entry refuses the insertion; that is the store failure the manager
  reports as \<^verbatim>\<open>CacheError\<close>.
\<close>

record ttl_cache =
  maxsize :: int
  ttl :: int
  entries :: "(string \<times> pyval \<times> real) list"

text \<open>Modelled from the spec: an empty store with its fixed \<open>max_size\<close> and \<open>ttl\<close>.\<close>

definition TTLCache_init :: "int \<Rightarrow> int \<Rightarrow> ttl_cache" where
  "TTLCache_init m t = \<lparr>maxsize = m, ttl = t, entries = []\<rparr>"

text \<open>Modelled from the spec: the sweep that drops every entry with \<open>now \<ge> expiry\<close>.\<close>

definition expire :: "real \<Rightarrow> (string \<times> pyval \<times> real) list \<Rightarrow> (string \<times> pyval \<times> real) list" where
  "expire now es = filter (\<lambda>e. now < snd (snd e)) es"

text \<open>Modelled from the spec: the entries without the one of a given key.\<close>

definition remove_key :: "string \<Rightarrow> (string \<times> pyval \<times> real) list \<Rightarrow> (string \<times> pyval \<times> real) list" where
  "remove_key key es = filter (\<lambda>e. fst e \<noteq> key) es"

text \<open>Modelled from the spec: CacheStore \<^verbatim>\<open>get(key)\<close>; it has no error path, and
  absence is the value \<^verbatim>\<open>None\<close> that \<^verbatim>\<open>_cache.get(key)\<close> returns by default.\<close>

definition ttl_get :: "ttl_cache \<Rightarrow> string \<Rightarrow> real \<Rightarrow> (py_error + pyval) \<times> ttl_cache" where
  "ttl_get c key now =
     (case map_of (entries c) key of
        None \<Rightarrow> (Inr PyNone, c)
      | Some (v, expiry) \<Rightarrow>
          if now < expiry
          then (Inr v, c\<lparr>entries := remove_key key (entries c) @ [(key, v, expiry)]\<rparr>)
          else (Inr PyNone, c\<lparr>entries := remove_key key (entries c)\<rparr>))"

text \<open>Modelled from the spec: CacheStore \<^verbatim>\<open>set(key, value)\<close>.\<close>

definition ttl_set ::
  "ttl_cache \<Rightarrow> string \<Rightarrow> pyval \<Rightarrow> real \<Rightarrow> (py_error + unit) \<times> ttl_cache" where
  "ttl_set c key v now =
     (if maxsize c < 1 then (Inl (ValueError ''value too large''), c)
      else
        (let es = expire now (entries c);
             es1 = (if map_of es key \<noteq> None then remove_key key es
                    else if maxsize c \<le> int (length es) then tl es
                    else es)
         in (Inr (), c\<lparr>entries := es1 @ [(key, v, now + real_of_int (ttl c))]\<rparr>)))"

text \<open>Modelled from the spec: a key is in the store when it has an unexpired entry.\<close>

definition ttl_contains :: "ttl_cache \<Rightarrow> string \<Rightarrow> real \<Rightarrow> (py_error + bool) \<times> ttl_cache" where
  "ttl_contains c key now =
     (case map_of (entries c) key of
        None \<Rightarrow> (Inr False, c)
      | Some (v, expiry) \<Rightarrow> (Inr (now < expiry), c))"

text \<open>Modelled from the spec: CacheStore \<^verbatim>\<open>delete(key)\<close>, a no-op for a missing key.\<close>

definition ttl_delete :: "ttl_cache \<Rightarrow> string \<Rightarrow> real \<Rightarrow> (py_error + unit) \<times> ttl_cache" where
  "ttl_delete c key now = (Inr (), c\<lparr>entries := remove_key key (entries c)\<rparr>)"

text \<open>Modelled from the spec: CacheStore \<^verbatim>\<open>clear()\<close>.\<close>

definition ttl_clear :: "ttl_cache \<Rightarrow> real \<Rightarrow> (py_error + unit) \<times> ttl_cache" where
  "ttl_clear c now = (Inr (), c\<lparr>entries := []\<rparr>)"

text \<open>Modelled from the spec: CacheStore \<^verbatim>\<open>size()\<close>, the count of stored entries before
  any sweep.\<close>

definition ttl_len :: "ttl_cache \<Rightarrow> real \<Rightarrow> int" where
  "ttl_len c now = int (length (entries c))"

text \<open>Modelled from the spec: the operations above as the store of the manager.\<close>

definition ttl_store :: "ttl_cache store_ops" where
  "ttl_store = \<lparr>st_get = ttl_get, st_set = ttl_set, st_contains = ttl_contains,
     st_delete = ttl_delete, st_clear = ttl_clear, st_len = ttl_len, st_maxsize = maxsize\<rparr>"

text \<open>\<^verbatim>\<open>CacheManager(maxsize, ttl)\<close> over this store.\<close>

definition CacheManager_new :: "int \<Rightarrow> int \<Rightarrow> ttl_cache cache_manager" where
  "CacheManager_new m t = CacheManager_init (TTLCache_init m t)"

text \<open>A sequence of \<^verbatim>\<open>set\<close> calls, each with its key, value and clock reading; a call
  that raises leaves the manager to the next call.\<close>

definition set_calls ::
  "ttl_cache cache_manager \<Rightarrow> (string \<times> pyval \<times> real) list \<Rightarrow> ttl_cache cache_manager" where
  "set_calls cm calls =
     foldl (\<lambda>cm (key, v, now). snd (CacheManager_set ttl_store cm key v now)) cm calls"

text \<open>A sequence of \<^verbatim>\<open>get\<close> and \<^verbatim>\<open>set\<close> calls over any store; it stops at the first
  call that raises, with the exception.\<close>

datatype cache_op = Get string real | Set string pyval real

fun cache_step ::
  "'s store_ops \<Rightarrow> 's cache_manager \<Rightarrow> cache_op \<Rightarrow> py_error + 's cache_manager" where
  "cache_step S cm (Get key now) =
     (case CacheManager_get S cm key now of
        (Inl e, cm') \<Rightarrow> Inl e | (Inr v, cm') \<Rightarrow> Inr cm')"
| "cache_step S cm (Set key v now) =
     (case CacheManager_set S cm key v now of
        (Inl e, cm') \<Rightarrow> Inl e | (Inr u, cm') \<Rightarrow> Inr cm')"

fun cache_run ::
  "'s store_ops \<Rightarrow> 's cache_manager \<Rightarrow> cache_op list \<Rightarrow> py_error + 's cache_manager" where
  "cache_run S cm [] = Inr cm"
| "cache_run S cm (op # ops) =
     (case cache_step S cm op of Inl e \<Rightarrow> Inl e | Inr cm' \<Rightarrow> cache_run S cm' ops)"

fun is_get :: "cache_op \<Rightarrow> bool" where
  "is_get (Get key now) = True"
| "is_get (Set key v now) = False"

text \<open>A history of calls on a manager of capacity 3 and time-to-live 60, and the manager
  after it.\<close>

definition cache_history :: "cache_op list" where
  "cache_history = [Get ''k'' 0, Get ''k'' 1, Set ''k'' (PyInt 1) 2, Get ''k'' 3]"

definition cm_after_history :: "ttl_cache cache_manager" where
  "cm_after_history =
     \<lparr>cache = \<lparr>maxsize = 3, ttl = 60, entries = [(''k'', PyInt 1, 62)]\<rparr>,
      hits = 1, misses = 2, errors = 0\<rparr>"

text \<open>Three insertions into a manager of capacity 3, and a manager of capacity 10 with
  time-to-live 1 holding one entry set at time 0.\<close>

definition three_sets :: "(string \<times> pyval \<times> real) list" where
  "three_sets = [(''k1'', PyInt 1, 0), (''k2'', PyInt 2, 1), (''k3'', PyInt 3, 2)]"

definition cm_a :: "ttl_cache cache_manager" where
  "cm_a = \<lparr>cache = \<lparr>maxsize = 10, ttl = 1, entries = [(''a'', PyInt 1, 1)]\<rparr>,
      hits = 0, misses = 0, errors = 0\<rparr>"


text \<open>Three wrapped functions over a world that counts what happened to it: one fails,
  one returns \<^verbatim>\<open>None\<close>, one returns a price. And the environments of a fresh manager of
  capacity 3 and of one that holds an entry.\<close>

definition failing_fetch :: "nat fetch" where
  "failing_fetch args kwargs w = (Inl (ProviderError ''connection refused''), w + 1)"


definition price_fetch :: "nat fetch" where
  "price_fetch args kwargs w = (Inr (PyInt 42), w + 1)"

definition fresh_env :: "(ttl_cache, nat) env" where
  "fresh_env = \<lparr>manager = CacheManager_new 3 60, world = 0, fetch_calls = 0\<rparr>"

definition warm_env :: "(ttl_cache, nat) env" where
  "warm_env = \<lparr>manager = \<lparr>cache = \<lparr>maxsize = 3, ttl = 60,
        entries = [(''ticker:get_ticker:BTC/USDT:exchange=binance'', PyInt 42, 60)]\<rparr>,
      hits = 0, misses = 0, errors = 0\<rparr>, world = 0, fetch_calls = 0\<rparr>"

section \<open>Properties of the rate limiter\<close>

lemma popleft_old_dropWhile: "popleft_old b w = dropWhile (\<lambda>t. t < b) w"
  by (induction w) auto

lemma popleft_old_sorted_filter:
  "sorted w \<Longrightarrow> popleft_old b w = filter (\<lambda>t. b \<le> t) w"
proof (induction w)
  case Nil
  then show ?case by simp
next
  case (Cons t ts)
  show ?case
  proof (cases "t < b")
    case True
    with Cons show ?thesis by simp
  next
    case False
    with Cons.prems have "\<forall>u \<in> set (t # ts). b \<le> u" by auto
    then have "filter (\<lambda>u. b \<le> u) (t # ts) = t # ts"
      by (simp only: filter_id_conv)
    with False show ?thesis by simp
  qed
qed

lemma check_limit_eq:
  "check_limit rl key now =
     (Inr (int (length (popleft_old (now - real_of_int (time_window rl)) (window rl key)))
            < max_requests rl),
      rl\<lparr>requests := (requests rl)
        (key \<mapsto> popleft_old (now - real_of_int (time_window rl)) (window rl key))\<rparr>)"
  by (cases "requests rl key")
    (simp_all add: check_limit_def clean_old_requests_def window_def Let_def)

lemma get_remaining_requests_eq:
  "get_remaining_requests rl key now =
     (case requests rl key of
        None \<Rightarrow> (Inr (max_requests rl), rl)
      | Some w \<Rightarrow>
          (Inr (max 0 (max_requests rl -
                  int (length (popleft_old (now - real_of_int (time_window rl)) w)))),
           rl\<lparr>requests := (requests rl)
             (key \<mapsto> popleft_old (now - real_of_int (time_window rl)) w)\<rparr>))"
  by (cases "requests rl key")
    (simp_all add: get_remaining_requests_def clean_old_requests_def Let_def)

lemma popleft_old_suffix: "suffix (popleft_old b w) w"
  by (simp add: popleft_old_dropWhile suffix_dropWhile)

lemma popleft_old_twice:
  "b1 \<le> b2 \<Longrightarrow> popleft_old b2 (popleft_old b1 w) = popleft_old b2 w"
  by (induction w) auto

lemma record_request_eq:
  "record_request rl key t1 t2 =
     (let w = popleft_old (t1 - real_of_int (time_window rl)) (window rl key);
          rl1 = rl\<lparr>requests := (requests rl)(key \<mapsto> w)\<rparr>
      in if int (length w) < max_requests rl
         then (Inr (), rl\<lparr>requests := (requests rl)(key \<mapsto> w @ [t2])\<rparr>)
         else (Inl (RateLimitError (rate_limit_message rl key)), rl1))"
  by (simp add: record_request_def check_limit_eq Let_def rate_limit_message_def)

lemma rl_fields_clean [simp]:
  "max_requests (clean_old_requests rl key t) = max_requests rl"
  "time_window (clean_old_requests rl key t) = time_window rl"
  by (simp_all add: clean_old_requests_def split: option.splits)

lemma rl_step_fields:
  "max_requests (rl_step rl op) = max_requests rl \<and> time_window (rl_step rl op) = time_window rl"
  by (cases op)
    (simp_all add: check_limit_eq record_request_eq get_remaining_requests_eq reset_def
      reset_all_def Let_def split: option.splits)

lemma rl_run_fields:
  "max_requests (rl_run rl ops) = max_requests rl \<and> time_window (rl_run rl ops) = time_window rl"
  unfolding rl_run_def
  by (induction ops arbitrary: rl) (simp_all add: rl_step_fields)

lemma popleft_old_length: "length (popleft_old b w) \<le> length w"
  by (simp add: popleft_old_dropWhile length_dropWhile_le)

lemma popleft_old_subset: "set (popleft_old b w) \<subseteq> set w"
  by (auto simp: popleft_old_dropWhile dest: set_dropWhileD)

lemma popleft_old_sorted: "sorted w \<Longrightarrow> sorted (popleft_old b w)"
  by (simp add: popleft_old_dropWhile sorted_dropWhile)

lemma window_length:
  assumes "window_bounded rl" "0 \<le> max_requests rl"
  shows "int (length (window rl key)) \<le> max_requests rl"
  using assms by (cases "requests rl key") (auto simp: window_bounded_def window_def)

lemma window_bounded_update:
  assumes "window_bounded rl" "int (length w) \<le> max_requests rl"
  shows "window_bounded (rl\<lparr>requests := (requests rl)(key \<mapsto> w)\<rparr>)"
  using assms unfolding window_bounded_def by auto

lemma window_bounded_purge:
  assumes "window_bounded rl" "0 \<le> max_requests rl"
  shows "window_bounded
    (rl\<lparr>requests := (requests rl)(key \<mapsto> popleft_old b (window rl key))\<rparr>)"
proof (rule window_bounded_update [OF assms(1)])
  have "int (length (popleft_old b (window rl key))) \<le> int (length (window rl key))"
    using popleft_old_length [of b "window rl key"] by simp
  with window_length [OF assms, of key]
  show "int (length (popleft_old b (window rl key))) \<le> max_requests rl" by simp
qed

lemma window_bounded_step:
  assumes "window_bounded rl" "0 \<le> max_requests rl"
  shows "window_bounded (rl_step rl op)"
proof (cases op)
  case (CheckLimit key t)
  with window_bounded_purge [OF assms] show ?thesis by (simp add: check_limit_eq)
next
  case (RecordRequest key t1 t2)
  let ?w = "popleft_old (t1 - real_of_int (time_window rl)) (window rl key)"
  show ?thesis
  proof (cases "int (length ?w) < max_requests rl")
    case True
    then have "int (length (?w @ [t2])) \<le> max_requests rl" by simp
    from window_bounded_update [OF assms(1) this] True RecordRequest show ?thesis
      by (simp add: record_request_eq Let_def)
  next
    case False
    with window_bounded_purge [OF assms] RecordRequest show ?thesis
      by (simp add: record_request_eq Let_def)
  qed
next
  case (GetRemaining key t)
  show ?thesis
  proof (cases "requests rl key")
    case None
    with assms GetRemaining show ?thesis by (simp add: get_remaining_requests_eq)
  next
    case (Some w)
    then have "window rl key = w" by (simp add: window_def)
    with window_bounded_purge [OF assms, of key] Some GetRemaining show ?thesis
      by (simp add: get_remaining_requests_eq)
  qed
next
  case (Reset key)
  from assms(2) have "int (length ([] :: real list)) \<le> max_requests rl" by simp
  from window_bounded_update [OF assms(1) this] assms(1) Reset show ?thesis
    by (simp add: reset_def)
next
  case ResetAll
  then show ?thesis by (simp add: window_bounded_def reset_all_def)
qed

lemma window_bounded_run:
  assumes "window_bounded rl" "0 \<le> max_requests rl"
  shows "window_bounded (rl_run rl ops)"
  using assms
proof (induction ops arbitrary: rl)
  case Nil
  then show ?case by (simp add: rl_run_def)
next
  case (Cons op ops)
  have "window_bounded (rl_step rl op)"
    using Cons.prems by (rule window_bounded_step)
  moreover have "0 \<le> max_requests (rl_step rl op)"
    using Cons.prems(2) by (simp add: rl_step_fields)
  ultimately have "window_bounded (rl_run (rl_step rl op) ops)"
    by (rule Cons.IH)
  then show ?case by (simp add: rl_run_def)
qed

lemma window_bounded_init: "window_bounded (RateLimiter_init mr tw)"
  by (simp add: window_bounded_def RateLimiter_init_def)

lemma window_order:
  assumes "window_ordered T rl"
  shows "sorted (window rl key) \<and> (\<forall>t \<in> set (window rl key). t \<le> T)"
  using assms by (cases "requests rl key") (auto simp: window_ordered_def window_def)

lemma window_ordered_mono: "window_ordered T rl \<Longrightarrow> T \<le> T' \<Longrightarrow> window_ordered T' rl"
  unfolding window_ordered_def by force

lemma window_ordered_update:
  assumes "window_ordered T rl" "sorted w" "\<forall>t \<in> set w. t \<le> T"
  shows "window_ordered T (rl\<lparr>requests := (requests rl)(key \<mapsto> w)\<rparr>)"
  using assms unfolding window_ordered_def by auto

lemma window_ordered_purge:
  assumes "window_ordered T rl"
  shows "window_ordered T
    (rl\<lparr>requests := (requests rl)(key \<mapsto> popleft_old b (window rl key))\<rparr>)"
proof (rule window_ordered_update [OF assms])
  note o = window_order [OF assms, of key]
  from o show "sorted (popleft_old b (window rl key))"
    by (simp add: popleft_old_sorted)
  from o popleft_old_subset [of b "window rl key"]
  show "\<forall>t \<in> set (popleft_old b (window rl key)). t \<le> T" by blast
qed

text \<open>One call: its readings are in order and not before \<open>T\<close>; afterwards the windows
  are in order up to every reading not before the call's last one.\<close>

lemma window_ordered_step:
  assumes "window_ordered T rl" and "sorted (T # op_times op @ [T'])"
  shows "window_ordered T' (rl_step rl op)"
proof (cases op)
  case (CheckLimit key t)
  with assms(2) have "T \<le> T'" by auto
  with window_ordered_purge [OF assms(1)] CheckLimit show ?thesis
    by (auto simp: check_limit_eq intro: window_ordered_mono)
next
  case (RecordRequest key t1 t2)
  with assms(2) have le: "T \<le> t2" "t2 \<le> T'" by auto
  let ?w = "popleft_old (t1 - real_of_int (time_window rl)) (window rl key)"
  have o2: "window_ordered t2 rl" using assms(1) le(1) by (rule window_ordered_mono)
  have p: "sorted ?w" "\<forall>t \<in> set ?w. t \<le> t2"
    using window_order [OF o2, of key] popleft_old_subset [of _ "window rl key"]
    by (auto simp: popleft_old_sorted)
  have "window_ordered t2 (snd (record_request rl key t1 t2))"
  proof (cases "int (length ?w) < max_requests rl")
    case True
    have "window_ordered t2 (rl\<lparr>requests := (requests rl)(key \<mapsto> ?w @ [t2])\<rparr>)"
      using p by (intro window_ordered_update [OF o2]) (auto simp: sorted_append)
    with True show ?thesis by (simp add: record_request_eq Let_def)
  next
    case False
    with window_ordered_purge [OF o2, of key] show ?thesis
      by (simp add: record_request_eq Let_def)
  qed
  with le(2) RecordRequest show ?thesis by (auto intro: window_ordered_mono)
next
  case (GetRemaining key t)
  with assms(2) have le: "T \<le> T'" by auto
  have "window_ordered T (snd (get_remaining_requests rl key t))"
  proof (cases "requests rl key")
    case None
    with assms(1) show ?thesis by (simp add: get_remaining_requests_eq)
  next
    case (Some w)
    then have "window rl key = w" by (simp add: window_def)
    with window_ordered_purge [OF assms(1), of key] Some show ?thesis
      by (simp add: get_remaining_requests_eq)
  qed
  with le GetRemaining show ?thesis by (auto intro: window_ordered_mono)
next
  case (Reset key)
  with assms(2) have le: "T \<le> T'" by auto
  have "window_ordered T (reset rl key)"
    using assms(1) by (auto simp: reset_def intro: window_ordered_update)
  with le Reset show ?thesis by (auto intro: window_ordered_mono)
next
  case ResetAll
  then show ?thesis by (simp add: window_ordered_def reset_all_def)
qed

lemma window_ordered_run:
  assumes "sorted (clock_readings ops @ [now])"
  shows "window_ordered now (rl_run (RateLimiter_init mr tw) ops)"
  using assms
proof (induction ops arbitrary: now rule: rev_induct)
  case Nil
  show ?case by (simp add: rl_run_def window_ordered_def RateLimiter_init_def)
next
  case (snoc op ops)
  let ?rl = "rl_run (RateLimiter_init mr tw) ops"
  define T where "T = (case op_times op @ [now] of t # _ \<Rightarrow> t)"
  have s: "sorted (clock_readings ops @ op_times op @ [now])"
    using snoc.prems by (simp add: clock_readings_def)
  have "sorted (clock_readings ops @ [T])"
    using s by (cases "op_times op") (auto simp: T_def sorted_append)
  then have inv: "window_ordered T ?rl" by (rule snoc.IH)
  have "sorted (T # op_times op @ [now])"
    using s by (cases "op_times op") (auto simp: T_def sorted_append)
  with inv have "window_ordered now (rl_step ?rl op)"
    by (rule window_ordered_step)
  then show ?case by (simp add: rl_run_def)
qed

lemma purge_in_window:
  assumes "sorted w" "\<forall>t \<in> set w. t \<le> now"
  shows "\<forall>t \<in> set (popleft_old (now - tw) w). now - tw \<le> t \<and> t \<le> now"
  using assms by (simp add: popleft_old_sorted_filter)

lemma clock_back_2:
  "rl_run (RateLimiter_init 2 60) rl_clock_back
     = \<lparr>max_requests = 2, time_window = 60, requests = [''binance'' \<mapsto> [100, 50]]\<rparr>"
  by (simp add: rl_run_def rl_clock_back_def RateLimiter_init_def record_request_eq
      window_def Let_def)

lemma clock_back_5:
  "rl_run (RateLimiter_init 5 60) rl_clock_back
     = \<lparr>max_requests = 5, time_window = 60, requests = [''binance'' \<mapsto> [100, 50]]\<rparr>"
  by (simp add: rl_run_def rl_clock_back_def RateLimiter_init_def record_request_eq
      window_def Let_def)

lemma sorted_snoc_last: "sorted xs \<Longrightarrow> xs \<noteq> [] \<Longrightarrow> sorted (xs @ [last xs])"
  by (cases xs rule: rev_cases) (auto simp: sorted_append)

text \<open>
  Against claim C2: when the clock went back between two requests (readings 100, then
  50) the window is \<open>[100, 50]\<close>. \<^verbatim>\<open>check_limit\<close> at reading 120 with
  \<open>time_window = 60\<close> stops at the first timestamp, which is not stale, and keeps the
  timestamp 50 behind it, which is older than \<open>now - time_window\<close>; with
  \<open>max_requests = 2\<close> it answers \<open>False\<close>, where the window purged of every timestamp
  older than \<open>now - time_window\<close> has one entry, fewer than \<open>max_requests\<close>.
\<close>

theorem check_limit_keeps_stale_timestamp:
  "window (rl_run (RateLimiter_init 2 60) rl_clock_back) ''binance'' = [100, 50]
   \<and> fst (check_limit (rl_run (RateLimiter_init 2 60) rl_clock_back) ''binance'' 120)
       = Inr False
   \<and> window (snd (check_limit (rl_run (RateLimiter_init 2 60) rl_clock_back) ''binance'' 120))
        ''binance'' = [100, 50]
   \<and> filter (\<lambda>t. 120 - real_of_int
          (time_window (rl_run (RateLimiter_init 2 60) rl_clock_back)) \<le> t)
        (window (rl_run (RateLimiter_init 2 60) rl_clock_back) ''binance'') = [100]
   \<and> int (length [100 :: real])
       < max_requests (rl_run (RateLimiter_init 2 60) rl_clock_back)"
  by (simp add: clock_back_2 check_limit_eq window_def)

text \<open>
  Claim C2, amended. \<^verbatim>\<open>check_limit(key)\<close> at clock reading \<open>now\<close> removes from the
  front of the key's window the timestamps older than \<open>now - time_window\<close>, up to the
  first that is not, touches no other key, and returns \<open>True\<close> exactly when the
  resulting window is strictly shorter than \<open>max_requests\<close>. On a window in time order
  this removes every timestamp older than \<open>now - time_window\<close>; and every window is in
  time order after any history of calls whose clock readings never decrease. The
  resulting window is a suffix of the old one, so nothing is appended. Neither
  \<^verbatim>\<open>check_limit\<close> nor \<^verbatim>\<open>get_remaining_requests\<close> raises.
\<close>

theorem check_limit_purges_then_compares:
  "\<exists>w'. w' = dropWhile (\<lambda>t. t < now - real_of_int (time_window rl)) (window rl key)
     \<and> (sorted (window rl key) \<longrightarrow>
          w' = filter (\<lambda>t. now - real_of_int (time_window rl) \<le> t) (window rl key))
     \<and> check_limit rl key now =
          (Inr (int (length w') < max_requests rl),
           rl\<lparr>requests := (requests rl)(key \<mapsto> w')\<rparr>)
     \<and> suffix w' (window rl key)
     \<and> (\<exists>n. fst (get_remaining_requests rl key now) = Inr n)
     \<and> (sorted (clock_readings ops) \<longrightarrow>
          sorted (window (rl_run (RateLimiter_init mr tw) ops) key))"
proof -
  let ?b = "now - real_of_int (time_window rl)"
  let ?w = "popleft_old ?b (window rl key)"
  have 1: "?w = dropWhile (\<lambda>t. t < ?b) (window rl key)"
    by (rule popleft_old_dropWhile)
  have 2: "sorted (window rl key) \<longrightarrow> ?w = filter (\<lambda>t. ?b \<le> t) (window rl key)"
    by (simp add: popleft_old_sorted_filter)
  have 3: "check_limit rl key now =
      (Inr (int (length ?w) < max_requests rl), rl\<lparr>requests := (requests rl)(key \<mapsto> ?w)\<rparr>)"
    by (rule check_limit_eq)
  have 4: "suffix ?w (window rl key)"
    by (rule popleft_old_suffix)
  have 5: "\<exists>n. fst (get_remaining_requests rl key now) = Inr n"
    by (cases "requests rl key") (simp_all add: get_remaining_requests_eq)
  have 6: "sorted (window (rl_run (RateLimiter_init mr tw) ops) key)"
    if s: "sorted (clock_readings ops)"
  proof -
    define T where "T = (if clock_readings ops = [] then 0 else last (clock_readings ops))"
    have "sorted (clock_readings ops @ [T])"
      using s by (simp add: T_def sorted_snoc_last)
    then have "window_ordered T (rl_run (RateLimiter_init mr tw) ops)"
      by (rule window_ordered_run)
    then show ?thesis using window_order by blast
  qed
  from 1 2 3 4 5 6 show ?thesis
    by metis
qed

theorem check_limit_purges_then_compares_witness:
  "sorted (window rl_example ''binance'')
   \<and> fst (check_limit rl_example ''binance'' 62) = Inr False
   \<and> requests (snd (check_limit rl_example ''binance'' 62)) ''binance'' = Some [5, 58, 61]
   \<and> sorted (clock_readings rl_history)
   \<and> sorted (window (rl_run (RateLimiter_init 3 60) rl_history) ''binance'')"
proof -
  have h1: "sorted (window rl_example ''binance'')"
    by (simp add: rl_example_def window_def)
  have h2: "sorted (clock_readings rl_history)"
    by (simp add: clock_readings_def rl_history_def)
  from check_limit_purges_then_compares [where now = 62 and rl = rl_example
      and key = "''binance''" and ops = rl_history and mr = 3 and tw = 60]
  obtain w' where
    a: "sorted (window rl_example ''binance'') \<longrightarrow>
          w' = filter (\<lambda>t. 62 - real_of_int (time_window rl_example) \<le> t)
                 (window rl_example ''binance'')"
    and b: "check_limit rl_example ''binance'' 62 =
          (Inr (int (length w') < max_requests rl_example),
           rl_example\<lparr>requests := (requests rl_example)(''binance'' \<mapsto> w')\<rparr>)"
    and c: "sorted (clock_readings rl_history) \<longrightarrow>
          sorted (window (rl_run (RateLimiter_init 3 60) rl_history) ''binance'')"
    by blast
  from a h1 have w: "w' = [5, 58, 61]"
    by (simp add: rl_example_def window_def)
  from b w have r: "fst (check_limit rl_example ''binance'' 62) = Inr False"
    "requests (snd (check_limit rl_example ''binance'' 62)) ''binance'' = Some [5, 58, 61]"
    by (simp_all add: rl_example_def)
  from c h2 have s: "sorted (window (rl_run (RateLimiter_init 3 60) rl_history) ''binance'')"
    by blast
  from h1 r h2 s show ?thesis by blast
qed

lemma sublist_mid: "sublist x (a @ x @ b)"
  unfolding sublist_def by blast

lemma rate_limit_message_names:
  "sublist key (rate_limit_message rl key)
   \<and> sublist (str_int (max_requests rl)) (rate_limit_message rl key)
   \<and> sublist (str_int (time_window rl)) (rate_limit_message rl key)"
proof -
  let ?m = "rate_limit_message rl key"
  have "?m = ''Rate limit exceeded for '' @ key @
      (''. Maximum '' @ str_int (max_requests rl) @ '' requests per '' @
       str_int (time_window rl) @ ''s'')"
    by (simp add: rate_limit_message_def)
  then have 1: "sublist key ?m" by (simp only: sublist_mid)
  have "?m = (''Rate limit exceeded for '' @ key @ ''. Maximum '') @ str_int (max_requests rl) @
      ('' requests per '' @ str_int (time_window rl) @ ''s'')"
    by (simp add: rate_limit_message_def)
  then have 2: "sublist (str_int (max_requests rl)) ?m" by (simp only: sublist_mid)
  have "?m = (''Rate limit exceeded for '' @ key @ ''. Maximum '' @ str_int (max_requests rl) @
       '' requests per '') @ str_int (time_window rl) @ ''s''"
    by (simp add: rate_limit_message_def)
  then have 3: "sublist (str_int (time_window rl)) ?m" by (simp only: sublist_mid)
  from 1 2 3 show ?thesis by simp
qed

lemma remaining_after_purge:
  assumes "0 \<le> max_requests rl"
    and "\<not> int (length (popleft_old (t1 - real_of_int (time_window rl)) (window rl key)))
          < max_requests rl"
    and "t1 \<le> t"
  shows "fst (get_remaining_requests
            (rl\<lparr>requests := (requests rl)
               (key \<mapsto> popleft_old (t1 - real_of_int (time_window rl)) (window rl key))\<rparr>) key t)
         = fst (get_remaining_requests rl key t)"
proof (cases "requests rl key")
  case None
  with assms(1,2) have "max_requests rl = 0" by (simp add: window_def)
  with None show ?thesis by (simp add: get_remaining_requests_eq window_def)
next
  case (Some w)
  have "popleft_old (t - real_of_int (time_window rl))
          (popleft_old (t1 - real_of_int (time_window rl)) w)
        = popleft_old (t - real_of_int (time_window rl)) w"
    using assms(3) by (simp add: popleft_old_twice)
  with Some show ?thesis by (simp add: get_remaining_requests_eq window_def)
qed

text \<open>
  Against claim C1: on a limiter built with \<open>max_requests = -1\<close>, a never-seen key
  reports \<open>-1\<close> remaining requests before the rejected call and \<open>0\<close> after it. The
  early return of \<^verbatim>\<open>get_remaining_requests\<close> for a key without a window gives
  \<open>max_requests\<close> as it is, while the rejected call creates the window and the other
  path gives \<open>max(0, ...)\<close>.
\<close>

theorem record_request_negative_limit:
  "fst (record_request (RateLimiter_init (- 1) 60) ''k'' 0 0)
     = Inl (RateLimitError ''Rate limit exceeded for k. Maximum -1 requests per 60s'')
   \<and> fst (get_remaining_requests (RateLimiter_init (- 1) 60) ''k'' 0) = Inr (- 1)
   \<and> fst (get_remaining_requests
        (snd (record_request (RateLimiter_init (- 1) 60) ''k'' 0 0)) ''k'' 0) = Inr 0"
  by (simp add: record_request_eq get_remaining_requests_eq RateLimiter_init_def window_def
      rate_limit_message_def str_int_def str_nat.simps digit_char_def Let_def)

text \<open>
  Claim C1, amended. Whenever \<^verbatim>\<open>record_request(key)\<close> raises, the exception is
  \<^verbatim>\<open>RateLimitError\<close> with the message of the source, which contains the key, the
  configured \<open>max_requests\<close> and the \<open>time_window\<close>; the limiter afterwards differs from
  the one before only by the purge of the key's window, which is a suffix of the old
  window, so no timestamp was appended; and, on a limiter whose \<open>max_requests\<close> is not
  negative, \<^verbatim>\<open>get_remaining_requests(key)\<close> read at the time of the failed call, or at
  any later time, gives the same number on the limiter after the call as on the limiter
  before it.
\<close>

theorem record_request_rejection:
  assumes "record_request rl key t1 t2 = (Inl e, rl')"
  shows "e = RateLimitError (rate_limit_message rl key)
     \<and> sublist key (exc_str e)
     \<and> sublist (str_int (max_requests rl)) (exc_str e)
     \<and> sublist (str_int (time_window rl)) (exc_str e)
     \<and> rl' = rl\<lparr>requests := (requests rl)
          (key \<mapsto> popleft_old (t1 - real_of_int (time_window rl)) (window rl key))\<rparr>
     \<and> suffix (window rl' key) (window rl key)
     \<and> (0 \<le> max_requests rl \<longrightarrow>
          (\<forall>t\<ge>t1. fst (get_remaining_requests rl' key t)
                    = fst (get_remaining_requests rl key t)))"
proof -
  let ?w = "popleft_old (t1 - real_of_int (time_window rl)) (window rl key)"
  from assms have full: "\<not> int (length ?w) < max_requests rl"
    by (auto simp: record_request_eq Let_def split: if_splits)
  with assms have e: "e = RateLimitError (rate_limit_message rl key)"
    and rl': "rl' = rl\<lparr>requests := (requests rl)(key \<mapsto> ?w)\<rparr>"
    by (simp_all add: record_request_eq Let_def)
  have names: "sublist key (exc_str e) \<and> sublist (str_int (max_requests rl)) (exc_str e)
     \<and> sublist (str_int (time_window rl)) (exc_str e)"
    using rate_limit_message_names [of key rl] by (simp add: e)
  have suf: "suffix (window rl' key) (window rl key)"
    by (simp add: rl' window_def popleft_old_suffix)
  have rem: "0 \<le> max_requests rl \<longrightarrow>
      (\<forall>t\<ge>t1. fst (get_remaining_requests rl' key t) = fst (get_remaining_requests rl key t))"
    unfolding rl' using full by (auto intro: remaining_after_purge)
  from e names rl' suf rem show ?thesis by blast
qed

theorem record_request_rejection_witness:
  "record_request rl_example ''binance'' 62 63 =
     (Inl (RateLimitError ''Rate limit exceeded for binance. Maximum 3 requests per 60s''),
      rl_example\<lparr>requests := [''binance'' \<mapsto> [5, 58, 61]]\<rparr>)
   \<and> 0 \<le> max_requests rl_example
   \<and> (62 :: real) \<le> 62
   \<and> fst (get_remaining_requests rl_example ''binance'' 62) = Inr 0
   \<and> fst (get_remaining_requests
        (rl_example\<lparr>requests := [''binance'' \<mapsto> [5, 58, 61]]\<rparr>) ''binance'' 62) = Inr 0"
proof -
  have str: "str_int 3 = ''3''" "str_int 60 = ''60''"
    by (simp_all add: str_int_def str_nat.simps digit_char_def)
  have h: "record_request rl_example ''binance'' 62 63 =
     (Inl (RateLimitError ''Rate limit exceeded for binance. Maximum 3 requests per 60s''),
      rl_example\<lparr>requests := [''binance'' \<mapsto> [5, 58, 61]]\<rparr>)"
    by (simp add: record_request_eq rl_example_def window_def rate_limit_message_def str)
  have m: "(0::int) \<le> max_requests rl_example" by (simp add: rl_example_def)
  have g: "fst (get_remaining_requests rl_example ''binance'' 62) = Inr 0"
    by (simp add: get_remaining_requests_eq rl_example_def)
  from record_request_rejection [OF h] m
  have "fst (get_remaining_requests
        (rl_example\<lparr>requests := [''binance'' \<mapsto> [5, 58, 61]]\<rparr>) ''binance'' 62)
      = fst (get_remaining_requests rl_example ''binance'' 62)"
    by blast
  with h g m show ?thesis by simp
qed

text \<open>
  Against claim C9. On a limiter built with \<open>max_requests = -1\<close>, the empty window that
  \<^verbatim>\<open>check_limit\<close> creates for a key is longer than \<open>max_requests\<close>. And when the
  clock went back between two requests (readings 100, then 50), the purge at reading
  120 with \<open>time_window = 60\<close> keeps the timestamp 50, which is before
  \<open>now - time_window\<close>.
\<close>

theorem window_invariant_violations:
  "window (rl_run (RateLimiter_init (- 1) 60) [CheckLimit ''k'' 0]) ''k'' = []
   \<and> max_requests (rl_run (RateLimiter_init (- 1) 60) [CheckLimit ''k'' 0]) = - 1
   \<and> \<not> int (length (window (rl_run (RateLimiter_init (- 1) 60) [CheckLimit ''k'' 0]) ''k''))
         \<le> max_requests (rl_run (RateLimiter_init (- 1) 60) [CheckLimit ''k'' 0])
   \<and> clock_readings rl_clock_back = [100, 100, 50, 50]
   \<and> window (snd (check_limit (rl_run (RateLimiter_init 5 60) rl_clock_back) ''binance'' 120))
        ''binance'' = [100, 50]
   \<and> \<not> 120 - real_of_int (time_window (rl_run (RateLimiter_init 5 60) rl_clock_back))
         \<le> last (window (snd (check_limit (rl_run (RateLimiter_init 5 60) rl_clock_back)
               ''binance'' 120)) ''binance'')"
proof -
  have a: "rl_run (RateLimiter_init (- 1) 60) [CheckLimit ''k'' 0]
      = \<lparr>max_requests = - 1, time_window = 60, requests = [''k'' \<mapsto> []]\<rparr>"
    by (simp add: rl_run_def RateLimiter_init_def check_limit_eq window_def)
  have b: "clock_readings rl_clock_back = [100, 100, 50, 50]"
    by (simp add: clock_readings_def rl_clock_back_def)
  show ?thesis
    by (simp add: a b clock_back_5 check_limit_eq window_def)
qed

text \<open>
  Claim C9, amended. After every history of calls (\<^verbatim>\<open>check_limit\<close>,
  \<^verbatim>\<open>record_request\<close>, \<^verbatim>\<open>get_remaining_requests\<close>, \<^verbatim>\<open>reset\<close>, \<^verbatim>\<open>reset_all\<close>) on a
  limiter built with \<open>max_requests \<ge> 0\<close>, each key's window holds at most
  \<open>max_requests\<close> timestamps, whatever the clock does. And when the clock readings of the
  history and the next reading \<open>now\<close> never decrease, a purge at \<open>now\<close> (by
  \<^verbatim>\<open>_clean_old_requests\<close> itself, or through \<^verbatim>\<open>check_limit\<close> or
  \<^verbatim>\<open>get_remaining_requests\<close>) leaves only timestamps in \<open>[now - time_window, now]\<close>,
  whatever \<open>max_requests\<close> is.
\<close>

theorem window_invariant_after_every_operation:
  "(0 \<le> mr \<longrightarrow>
      int (length (window (rl_run (RateLimiter_init mr tw) ops) key)) \<le> mr)
   \<and> (sorted (clock_readings ops @ [now]) \<longrightarrow>
        (\<forall>t \<in> set (window (clean_old_requests (rl_run (RateLimiter_init mr tw) ops) key now) key).
           now - real_of_int tw \<le> t \<and> t \<le> now)
      \<and> (\<forall>t \<in> set (window (snd (check_limit (rl_run (RateLimiter_init mr tw) ops) key now)) key).
           now - real_of_int tw \<le> t \<and> t \<le> now)
      \<and> (\<forall>t \<in> set (window (snd (get_remaining_requests
              (rl_run (RateLimiter_init mr tw) ops) key now)) key).
           now - real_of_int tw \<le> t \<and> t \<le> now))"
proof (intro conjI impI)
  let ?rl = "rl_run (RateLimiter_init mr tw) ops"
  have f: "max_requests ?rl = mr" "time_window ?rl = tw"
    by (simp_all add: rl_run_fields RateLimiter_init_def)
  {
    assume m: "0 \<le> mr"
    have "window_bounded ?rl"
      using m by (intro window_bounded_run window_bounded_init) (simp add: RateLimiter_init_def)
    from window_length [OF this, of key] m
    show "int (length (window ?rl key)) \<le> mr" by (simp add: f)
  }
  assume s: "sorted (clock_readings ops @ [now])"
  have "window_ordered now ?rl" using s by (rule window_ordered_run)
  from window_order [OF this, of key]
  have purged: "\<forall>t \<in> set (popleft_old (now - real_of_int tw) (window ?rl key)).
      now - real_of_int tw \<le> t \<and> t \<le> now"
    by (intro purge_in_window) simp_all
  have 2: "window (clean_old_requests ?rl key now) key
      = popleft_old (now - real_of_int tw) (window ?rl key)"
    by (cases "requests ?rl key") (simp_all add: clean_old_requests_def window_def f)
  have 3: "window (snd (check_limit ?rl key now)) key
      = popleft_old (now - real_of_int tw) (window ?rl key)"
    by (simp add: check_limit_eq window_def f)
  have 4: "window (snd (get_remaining_requests ?rl key now)) key
      = popleft_old (now - real_of_int tw) (window ?rl key)"
    by (cases "requests ?rl key") (simp_all add: get_remaining_requests_eq window_def f)
  show "\<forall>t \<in> set (window (clean_old_requests ?rl key now) key).
      now - real_of_int tw \<le> t \<and> t \<le> now"
    unfolding 2 by (rule purged)
  show "\<forall>t \<in> set (window (snd (check_limit ?rl key now)) key).
      now - real_of_int tw \<le> t \<and> t \<le> now"
    unfolding 3 by (rule purged)
  show "\<forall>t \<in> set (window (snd (get_remaining_requests ?rl key now)) key).
      now - real_of_int tw \<le> t \<and> t \<le> now"
    unfolding 4 by (rule purged)
qed

theorem window_invariant_after_every_operation_witness:
  "(0::int) \<le> 3 \<and> sorted (clock_readings rl_history @ [70])
   \<and> int (length (window (rl_run (RateLimiter_init 3 60) rl_history) ''binance'')) \<le> 3
   \<and> window (snd (check_limit (rl_run (RateLimiter_init 3 60) rl_history) ''binance'' 70))
        ''binance'' = [10, 21]
   \<and> 70 - real_of_int 60 \<le> hd (window (snd (check_limit
        (rl_run (RateLimiter_init 3 60) rl_history) ''binance'' 70)) ''binance'')
   \<and> last (window (snd (check_limit
        (rl_run (RateLimiter_init 3 60) rl_history) ''binance'' 70)) ''binance'') \<le> 70"
proof -
  let ?w = "window (snd (check_limit (rl_run (RateLimiter_init 3 60) rl_history)
      ''binance'' 70)) ''binance''"
  have h1: "(0::int) \<le> 3" by simp
  have h2: "sorted (clock_readings rl_history @ [70])"
    by (simp add: clock_readings_def rl_history_def)
  have v: "?w = [10, 21]"
    by (simp add: rl_run_def rl_history_def RateLimiter_init_def record_request_eq
      check_limit_eq get_remaining_requests_eq window_def Let_def)
  note c = window_invariant_after_every_operation [where mr = 3 and tw = 60
      and ops = rl_history and key = "''binance''" and now = 70]
  from c h1 have len: "int (length (window (rl_run (RateLimiter_init 3 60) rl_history)
      ''binance'')) \<le> 3"
    by blast
  from c h2 have b: "\<forall>t \<in> set ?w. 70 - real_of_int 60 \<le> t \<and> t \<le> 70"
    by blast
  have "hd ?w \<in> set ?w" "last ?w \<in> set ?w"
    by (simp_all add: v)
  with b have "70 - real_of_int 60 \<le> hd ?w \<and> last ?w \<le> 70"
    by blast
  with h1 h2 len v show ?thesis by blast
qed

section \<open>Properties of the cache manager\<close>

lemma sort_key_perm_distinct:
  assumes "mset ys = mset xs" "distinct (map f xs)"
  shows "sort_key f ys = sort_key f xs"
proof -
  let ?a = "sort_key f ys" and ?b = "sort_key f xs"
  have m: "mset (map f ?a) = mset (map f xs)" "mset (map f ?b) = mset (map f xs)"
    using assms(1) by simp_all
  have da: "distinct (map f ?a)" and db: "distinct (map f ?b)"
    using m assms(2) by (metis mset_eq_imp_distinct_iff)+
  have "set (map f ?a) = set (map f ?b)"
    using m by (metis mset_eq_setD)
  with da db have keys: "map f ?a = map f ?b"
    by (intro sorted_distinct_set_unique) simp_all
  have "set ?a \<union> set ?b = set xs"
    using assms(1) by (auto dest: mset_eq_setD)
  moreover have "inj_on f (set xs)"
    using assms(2) by (simp add: distinct_map)
  ultimately have "inj_on f (set ?a \<union> set ?b)" by simp
  with keys show ?thesis by (simp only: inj_on_map_eq_map)
qed

text \<open>
  Claim C7. \<^verbatim>\<open>build_key\<close> is a function of its arguments: the key is the rendered
  positional arguments in call order followed by the \<open>name=value\<close> renderings of the named
  arguments in the order of their names, joined by \<open>:\<close>. Two calls with the same
  positional arguments whose named arguments are the same (name, value) pairs supplied
  in a different order give the same key.
\<close>

theorem build_key_named_order:
  assumes "distinct (map fst kwargs)" and "mset kwargs' = mset kwargs"
  shows "build_key args kwargs' = build_key args kwargs
     \<and> (\<exists>named. mset named = mset kwargs \<and> sorted (map fst named)
           \<and> build_key args kwargs = join '':'' (map py_str args @ map render_named named))"
proof -
  have "build_key args kwargs' = build_key args kwargs"
    using sort_key_perm_distinct [OF assms(2,1)] by (simp add: build_key_def key_parts_def)
  moreover have "mset (sort_key fst kwargs) = mset kwargs \<and> sorted (map fst (sort_key fst kwargs))
     \<and> build_key args kwargs =
         join '':'' (map py_str args @ map render_named (sort_key fst kwargs))"
    by (simp add: build_key_def key_parts_def)
  ultimately show ?thesis by blast
qed

theorem build_key_named_order_witness:
  "distinct (map fst [(''x'', PyInt 1), (''y'', PyInt 2)])
   \<and> mset [(''y'', PyInt 2), (''x'', PyInt 1)] = mset [(''x'', PyInt 1), (''y'', PyInt 2)]
   \<and> build_key [PyStr ''op'', PyStr ''a'', PyStr ''b''] [(''y'', PyInt 2), (''x'', PyInt 1)]
       = build_key [PyStr ''op'', PyStr ''a'', PyStr ''b''] [(''x'', PyInt 1), (''y'', PyInt 2)]
   \<and> build_key [PyStr ''op'', PyStr ''a'', PyStr ''b''] [(''y'', PyInt 2), (''x'', PyInt 1)]
       = ''op:a:b:x=1:y=2''"
proof -
  have h1: "distinct (map fst [(''x'', PyInt 1), (''y'', PyInt 2)])" by simp
  have h2: "mset [(''y'', PyInt 2), (''x'', PyInt 1)] = mset [(''x'', PyInt 1), (''y'', PyInt 2)]"
    by (simp add: add_mset_commute)
  have v: "build_key [PyStr ''op'', PyStr ''a'', PyStr ''b''] [(''x'', PyInt 1), (''y'', PyInt 2)]
       = ''op:a:b:x=1:y=2''"
    by (simp add: build_key_def key_parts_def render_named_def str_int_def str_nat.simps digit_char_def)
  from build_key_named_order [OF h1 h2, of "[PyStr ''op'', PyStr ''a'', PyStr ''b'']"]
  have e: "build_key [PyStr ''op'', PyStr ''a'', PyStr ''b''] [(''y'', PyInt 2), (''x'', PyInt 1)]
       = build_key [PyStr ''op'', PyStr ''a'', PyStr ''b''] [(''x'', PyInt 1), (''y'', PyInt 2)]"
    by blast
  from h1 h2 e v show ?thesis by simp
qed

lemma split_at_sep:
  "c \<notin> set p \<Longrightarrow> c \<notin> set q \<Longrightarrow> p @ c # r = q @ c # s \<Longrightarrow> p = q \<and> r = s"
proof (induction p arbitrary: q)
  case Nil
  then show ?case by (cases q) auto
next
  case (Cons a p)
  then show ?case by (cases q) auto
qed

lemma join_sep_inject:
  assumes "\<forall>p \<in> set ps \<union> set qs. c \<notin> set p" "ps \<noteq> []" "qs \<noteq> []"
    and "join [c] ps = join [c] qs"
  shows "ps = qs"
  using assms
proof (induction "[c]" ps arbitrary: qs rule: join.induct)
  case 1
  then show ?case by simp
next
  case (2 p)
  from \<open>qs \<noteq> []\<close> obtain q qs1 where qs: "qs = q # qs1" by (cases qs) auto
  show ?case
  proof (cases qs1)
    case Nil
    with 2 qs show ?thesis by simp
  next
    case (Cons q' qs')
    with 2 qs have "p = q @ c # join [c] (q' # qs')" by simp
    then have "c \<in> set p" by simp
    with 2 show ?thesis by simp
  qed
next
  case (3 p p' ps')
  from \<open>qs \<noteq> []\<close> obtain q qs1 where qs: "qs = q # qs1" by (cases qs) auto
  show ?case
  proof (cases qs1)
    case Nil
    with 3 qs have "q = p @ c # join [c] (p' # ps')" by simp
    then have "c \<in> set q" by simp
    with 3 qs show ?thesis by simp
  next
    case (Cons q' qs')
    with 3 qs have eq: "p @ c # join [c] (p' # ps') = q @ c # join [c] (q' # qs')" by simp
    have "c \<notin> set p" "c \<notin> set q" using 3 qs by simp_all
    with eq have "p = q \<and> join [c] (p' # ps') = join [c] (q' # qs')"
      by (intro split_at_sep)
    then have "p = q" "join [c] (p' # ps') = join [c] (q' # qs')"
      by simp_all
    moreover have "\<forall>x \<in> set (p' # ps') \<union> set (q' # qs'). c \<notin> set x"
      using 3 qs Cons by simp
    moreover have "p' # ps' \<noteq> []" "q' # qs' \<noteq> []"
      by simp_all
    ultimately have "p' # ps' = q' # qs'"
      by (intro "3.hyps")
    with \<open>p = q\<close> qs Cons show ?thesis by simp
  qed
qed

lemma str_nat_nonempty: "str_nat n \<noteq> []"
  by (subst str_nat.simps) simp

lemma py_str_empty: "py_str v = [] \<longleftrightarrow> v = PyStr []"
  by (cases v) (simp_all add: str_int_def str_nat_nonempty)

lemma join_empty: "join [c] ps = [] \<Longrightarrow> ps = [] \<or> ps = [[]]"
proof (cases ps)
  case Nil
  then show ?thesis by simp
next
  case (Cons p ps1)
  assume a: "join [c] ps = []"
  show ?thesis
  proof (cases ps1)
    case Nil
    with Cons a show ?thesis by simp
  next
    case (Cons q qs)
    with \<open>ps = p # ps1\<close> a show ?thesis by simp
  qed
qed

lemma join_inject:
  assumes "\<forall>p \<in> set ps \<union> set qs. c \<notin> set p" "ps \<noteq> [[]]" "qs \<noteq> [[]]"
    and "join [c] ps = join [c] qs"
  shows "ps = qs"
proof (cases "ps = [] \<or> qs = []")
  case True
  then show ?thesis
  proof
    assume "ps = []"
    with assms(4) have "join [c] qs = []" by simp
    from join_empty [OF this] assms(3) \<open>ps = []\<close> show ?thesis by simp
  next
    assume "qs = []"
    with assms(4) have "join [c] ps = []" by simp
    from join_empty [OF this] assms(2) \<open>qs = []\<close> show ?thesis by simp
  qed
next
  case False
  then show ?thesis using join_sep_inject [OF assms(1) _ _ assms(4)] by simp
qed

lemma groups_split:
  assumes "\<forall>x \<in> set xs \<union> set xs'. \<not> P x" "\<forall>y \<in> set ys \<union> set ys'. P y"
    and "xs @ ys = xs' @ ys'"
  shows "xs = xs' \<and> ys = ys'"
  using assms
proof (induction xs arbitrary: xs')
  case Nil
  then show ?case by (cases xs') auto
next
  case (Cons a xs)
  then show ?case by (cases xs') auto
qed

lemma render_named_inject:
  assumes "CHR ''='' \<notin> set (fst kv)" "CHR ''='' \<notin> set (fst kv')"
    and "render_named kv = render_named kv'"
  shows "fst kv = fst kv' \<and> py_str (snd kv) = py_str (snd kv')"
  using split_at_sep [OF assms(1,2), of "py_str (snd kv)" "py_str (snd kv')"] assms(3)
  by (simp add: render_named_def)

lemma render_named_has_eq: "CHR ''='' \<in> set (render_named kv)"
  by (simp add: render_named_def)

lemma render_named_sep:
  "CHR '':'' \<in> set (render_named kv) \<longleftrightarrow> CHR '':'' \<in> set (fst kv) \<or> CHR '':'' \<in> set (py_str (snd kv))"
  by (auto simp: render_named_def)

lemma key_parts_only_empty:
  assumes "key_parts args kwargs = [[]]"
  shows "args = [PyStr []] \<and> kwargs = []"
proof -
  from assms have e: "map py_str args @ map render_named (sort_key fst kwargs) = [[]]"
    by (simp add: key_parts_def)
  have "sort_key fst kwargs = []"
  proof (rule ccontr)
    assume "sort_key fst kwargs \<noteq> []"
    then have "last (map py_str args @ map render_named (sort_key fst kwargs))
        = render_named (last (sort_key fst kwargs))"
      by (simp add: last_map)
    with e have "render_named (last (sort_key fst kwargs)) = []" by simp
    with render_named_has_eq [of "last (sort_key fst kwargs)"] show False by simp
  qed
  then have k: "kwargs = []" by (metis mset_sort mset_zero_iff)
  with e have "map py_str args = [[]]" by simp
  then obtain v where "args = [v]" "py_str v = []" by (cases args) auto
  with k show ?thesis by (simp add: py_str_empty)
qed

text \<open>
  Against claim C8: \<^verbatim>\<open>build_key\<close> renders and joins without escaping, so different
  argument combinations can share a key. In turn: the positional argument \<open>a:b\<close> and the
  two positional arguments \<open>a\<close>, \<open>b\<close>; the positional argument \<open>x=1\<close> and the named
  argument \<open>x\<close> with value \<open>1\<close>; the name \<open>a:b\<close> and the positional \<open>a\<close> followed by the
  name \<open>b\<close>; the name \<open>x=y\<close> with value \<open>1\<close> and the name \<open>x\<close> with value \<open>y=1\<close>; the
  named value \<open>a:z=c\<close> and the two named arguments \<open>k = a\<close>, \<open>z = c\<close>; no argument at
  all and the empty string as only argument; the integer \<open>1\<close> and the string \<open>1\<close>, as
  a positional and as a named value.
\<close>

theorem build_key_collisions:
  "build_key [PyStr ''a:b''] [] = build_key [PyStr ''a'', PyStr ''b''] []
   \<and> [PyStr ''a:b''] \<noteq> [PyStr ''a'', PyStr ''b'']
   \<and> build_key [PyStr ''x=1''] [] = build_key [] [(''x'', PyStr ''1'')]
   \<and> [PyStr ''x=1''] \<noteq> []
   \<and> build_key [] [(''a:b'', PyStr ''c'')] = build_key [PyStr ''a''] [(''b'', PyStr ''c'')]
   \<and> [] \<noteq> [PyStr ''a'']
   \<and> build_key [] [(''x=y'', PyStr ''1'')] = build_key [] [(''x'', PyStr ''y=1'')]
   \<and> set [(''x=y'', PyStr ''1'')] \<noteq> set [(''x'', PyStr ''y=1'')]
   \<and> build_key [] [(''k'', PyStr ''a:z=c'')] = build_key [] [(''k'', PyStr ''a''), (''z'', PyStr ''c'')]
   \<and> set [(''k'', PyStr ''a:z=c'')] \<noteq> set [(''k'', PyStr ''a''), (''z'', PyStr ''c'')]
   \<and> build_key [] [] = build_key [PyStr []] []
   \<and> [] \<noteq> [PyStr []]
   \<and> build_key [PyInt 1] [] = build_key [PyStr ''1''] []
   \<and> [PyInt 1] \<noteq> [PyStr ''1'']
   \<and> build_key [] [(''x'', PyInt 1)] = build_key [] [(''x'', PyStr ''1'')]
   \<and> set [(''x'', PyInt 1)] \<noteq> set [(''x'', PyStr ''1'')]"
  by (simp add: build_key_def key_parts_def render_named_def str_int_def str_nat.simps digit_char_def)

text \<open>
  Claim C8, amended. Two calls of \<^verbatim>\<open>build_key\<close> whose positional argument lists differ
  (the operation is the first positional argument) or whose sets of named arguments
  differ get different keys, provided that \<^verbatim>\<open>str\<close> gives different positional values
  different renderings, and likewise different named values; that no rendered
  positional value contains \<open>:\<close> or \<open>=\<close>; that no argument name contains \<open>:\<close> or \<open>=\<close>
  and no rendered named value contains \<open>:\<close>; and that neither call has the empty string
  as its only argument.
\<close>

theorem build_key_separates_arguments:
  assumes "inj_on py_str (set args \<union> set args')"
    and "inj_on py_str (snd ` (set kwargs \<union> set kwargs'))"
    and "\<forall>v \<in> set args \<union> set args'. CHR '':'' \<notin> set (py_str v) \<and> CHR ''='' \<notin> set (py_str v)"
    and "\<forall>kv \<in> set kwargs \<union> set kwargs'.
           CHR '':'' \<notin> set (fst kv) \<and> CHR ''='' \<notin> set (fst kv) \<and> CHR '':'' \<notin> set (py_str (snd kv))"
    and "(args, kwargs) \<noteq> ([PyStr []], [])" and "(args', kwargs') \<noteq> ([PyStr []], [])"
    and "args \<noteq> args' \<or> set kwargs \<noteq> set kwargs'"
  shows "build_key args kwargs \<noteq> build_key args' kwargs'"
proof
  assume eq: "build_key args kwargs = build_key args' kwargs'"
  let ?s = "sort_key fst kwargs" and ?s' = "sort_key fst kwargs'"
  have sets: "set ?s = set kwargs" "set ?s' = set kwargs'" by simp_all
  have "\<forall>kv \<in> set kwargs \<union> set kwargs'. CHR '':'' \<notin> set (render_named kv)"
    using assms(4) render_named_sep by blast
  with assms(3)
  have nosep: "\<forall>p \<in> set (key_parts args kwargs) \<union> set (key_parts args' kwargs'). CHR '':'' \<notin> set p"
    by (auto simp: key_parts_def)
  have ne: "key_parts args kwargs \<noteq> [[]]" "key_parts args' kwargs' \<noteq> [[]]"
    using key_parts_only_empty assms(5,6) by blast+
  have "key_parts args kwargs = key_parts args' kwargs'"
    using join_inject [OF nosep ne] eq by (simp add: build_key_def)
  then have parts: "map py_str args @ map render_named ?s = map py_str args' @ map render_named ?s'"
    by (simp add: key_parts_def)
  have pos: "\<forall>x \<in> set (map py_str args) \<union> set (map py_str args'). \<not> CHR ''='' \<in> set x"
    using assms(3) by auto
  have nam: "\<forall>y \<in> set (map render_named ?s) \<union> set (map render_named ?s'). CHR ''='' \<in> set y"
    by (auto simp: render_named_has_eq)
  from groups_split [OF pos nam parts]
  have m1: "map py_str args = map py_str args'"
    and m2: "map render_named ?s = map render_named ?s'" by simp_all
  from m1 assms(1) have a: "args = args'" by (simp add: inj_on_map_eq_map)
  have "inj_on render_named (set ?s \<union> set ?s')"
  proof (rule inj_onI)
    fix kv kv' assume in1: "kv \<in> set ?s \<union> set ?s'" and in2: "kv' \<in> set ?s \<union> set ?s'"
      and r: "render_named kv = render_named kv'"
    from in1 in2 assms(4) have "CHR ''='' \<notin> set (fst kv)" "CHR ''='' \<notin> set (fst kv')"
      by auto
    from render_named_inject [OF this r]
    have f: "fst kv = fst kv'" and s: "py_str (snd kv) = py_str (snd kv')" by simp_all
    from in1 in2 have "snd kv \<in> snd ` (set kwargs \<union> set kwargs')"
      "snd kv' \<in> snd ` (set kwargs \<union> set kwargs')" by auto
    with s assms(2) have "snd kv = snd kv'" by (auto dest: inj_onD)
    with f show "kv = kv'" by (simp add: prod_eq_iff)
  qed
  with m2 have "?s = ?s'" by (simp only: inj_on_map_eq_map)
  then have "set ?s = set ?s'" by simp
  then have "set kwargs = set kwargs'" by simp
  with a assms(7) show False by simp
qed

theorem build_key_separates_arguments_witness:
  "inj_on py_str (set [PyStr ''price'', PyStr ''BTC''] \<union> set [PyStr ''price'', PyStr ''ETH''])
   \<and> inj_on py_str (snd ` (set [(''exchange'', PyStr ''binance''), (''limit'', PyInt 5)]
        \<union> set [(''limit'', PyInt 5), (''exchange'', PyStr ''binance'')]))
   \<and> build_key [PyStr ''price'', PyStr ''BTC''] [(''exchange'', PyStr ''binance''), (''limit'', PyInt 5)]
       = ''price:BTC:exchange=binance:limit=5''
   \<and> build_key [PyStr ''price'', PyStr ''ETH''] [(''limit'', PyInt 5), (''exchange'', PyStr ''binance'')]
       = ''price:ETH:exchange=binance:limit=5''
   \<and> build_key [PyStr ''price'', PyStr ''BTC''] [(''exchange'', PyStr ''binance''), (''limit'', PyInt 5)]
       \<noteq> build_key [PyStr ''price'', PyStr ''ETH''] [(''limit'', PyInt 5), (''exchange'', PyStr ''binance'')]"
proof -
  let ?a = "[PyStr ''price'', PyStr ''BTC'']" and ?a' = "[PyStr ''price'', PyStr ''ETH'']"
  let ?k = "[(''exchange'', PyStr ''binance''), (''limit'', PyInt 5)]"
  let ?k' = "[(''limit'', PyInt 5), (''exchange'', PyStr ''binance'')]"
  have five: "str_int 5 = ''5''"
    by (simp add: str_int_def str_nat.simps digit_char_def)
  have h1: "inj_on py_str (set ?a \<union> set ?a')" by (simp add: inj_on_def)
  have h2: "inj_on py_str (snd ` (set ?k \<union> set ?k'))" by (simp add: inj_on_def five)
  have h3: "\<forall>v \<in> set ?a \<union> set ?a'. CHR '':'' \<notin> set (py_str v) \<and> CHR ''='' \<notin> set (py_str v)"
    by simp
  have h4: "\<forall>kv \<in> set ?k \<union> set ?k'.
      CHR '':'' \<notin> set (fst kv) \<and> CHR ''='' \<notin> set (fst kv) \<and> CHR '':'' \<notin> set (py_str (snd kv))"
    by (simp add: five)
  have h5: "(?a, ?k) \<noteq> ([PyStr []], [])" and h6: "(?a', ?k') \<noteq> ([PyStr []], [])" by simp_all
  have h7: "?a \<noteq> ?a' \<or> set ?k \<noteq> set ?k'" by simp
  have v1: "build_key ?a ?k = ''price:BTC:exchange=binance:limit=5''"
    and v2: "build_key ?a' ?k' = ''price:ETH:exchange=binance:limit=5''"
    by (simp_all add: build_key_def key_parts_def render_named_def five)
  from build_key_separates_arguments [OF h1 h2 h3 h4 h5 h6 h7] h1 h2 v1 v2
  show ?thesis by simp
qed

lemma CacheManager_get_counters:
  assumes "CacheManager_get S cm key now = (Inr v, cm')"
  shows "hits cm' + misses cm' = hits cm + misses cm + 1
     \<and> hits cm \<le> hits cm' \<and> misses cm \<le> misses cm' \<and> errors cm' = errors cm"
  using assms
  by (auto simp: CacheManager_get_def split: prod.splits sum.splits if_splits)

lemma CacheManager_set_counters:
  assumes "CacheManager_set S cm key v now = (Inr u, cm')"
  shows "hits cm' = hits cm \<and> misses cm' = misses cm \<and> errors cm' = errors cm"
  using assms
  by (auto simp: CacheManager_set_def split: prod.splits sum.splits)

lemma cache_step_counters:
  assumes "cache_step S cm op = Inr cm'"
  shows "hits cm' + misses cm' = hits cm + misses cm + (if is_get op then 1 else 0)
     \<and> hits cm \<le> hits cm' \<and> misses cm \<le> misses cm'"
proof (cases op)
  case (Get key now)
  with assms obtain v where "CacheManager_get S cm key now = (Inr v, cm')"
    by (auto split: prod.splits sum.splits)
  from CacheManager_get_counters [OF this] Get show ?thesis by simp
next
  case (Set key v now)
  with assms obtain u where "CacheManager_set S cm key v now = (Inr u, cm')"
    by (auto split: prod.splits sum.splits)
  from CacheManager_set_counters [OF this] Set show ?thesis by simp
qed

lemma cache_run_counters:
  assumes "cache_run S cm ops = Inr cm'"
  shows "hits cm' + misses cm' = hits cm + misses cm + int (length (filter is_get ops))
     \<and> hits cm \<le> hits cm' \<and> misses cm \<le> misses cm'"
  using assms
proof (induction ops arbitrary: cm)
  case Nil
  then show ?case by simp
next
  case (Cons op ops)
  then obtain cm1 where s: "cache_step S cm op = Inr cm1" and r: "cache_run S cm1 ops = Inr cm'"
    by (auto split: sum.splits)
  from cache_step_counters [OF s] Cons.IH [OF r] show ?case
    by auto
qed

lemma cache_history_run:
  "cache_run ttl_store (CacheManager_new 3 60) cache_history = Inr cm_after_history"
  by (simp add: cache_history_def cm_after_history_def CacheManager_new_def CacheManager_init_def
      TTLCache_init_def CacheManager_get_def CacheManager_set_def ttl_store_def ttl_get_def
      ttl_set_def expire_def remove_key_def)

lemma round_half_even_near: "\<bar>of_int (round_half_even y) - y\<bar> \<le> 1 / 2"
proof -
  define f where "f = \<lfloor>y\<rfloor>"
  have b: "of_int f \<le> y" "y < of_int f + 1"
    unfolding f_def by linarith+
  have "round_half_even y = (if y - of_int f < 1 / 2 then f
       else if 1 / 2 < y - of_int f then f + 1 else if even f then f else f + 1)"
    by (simp add: round_half_even_def Let_def f_def)
  with b show ?thesis by auto
qed

lemma py_round2_zero: "py_round2 0 = 0"
  by (simp add: py_round2_def round_half_even_def fl_def)

lemma py_round2_hundredth:
  "\<exists>k. py_round2 x = fl (of_int k / 100) \<and> \<bar>of_int k / 100 - x\<bar> \<le> 1 / 200"
proof -
  let ?k = "round_half_even (x * 100)"
  have "\<bar>of_int ?k - x * 100\<bar> \<le> 1 / 2" by (rule round_half_even_near)
  then have "\<bar>of_int ?k / 100 - x\<bar> \<le> 1 / 200"
    by (simp add: abs_le_iff field_simps)
  then show ?thesis by (auto simp: py_round2_def)
qed

lemma third_as_float: "int_truediv 1 3 = 6004799503160661 / 2 ^ 54"
  by (simp add: int_truediv_def fl_def ulp_scale.simps round_half_even_def)

lemma third_rate: "float_mul (int_truediv 1 3) 100 = 2345624805922133 / 70368744177664"
  by (simp add: third_as_float float_mul_def fl_def ulp_scale.simps round_half_even_def)

lemma third_rate_rounded:
  "py_round2 (float_mul (int_truediv 1 3) 100) = 2345390243441541 / 70368744177664"
  by (simp add: third_rate py_round2_def fl_def ulp_scale.simps round_half_even_def)

text \<open>
  Against claim C5: after two misses and one hit the reported \<open>hit_rate_percent\<close> is
  the float 33.33. It is neither the number \<open>1 / (1 + 2) * 100\<close> nor the float that
  \<^verbatim>\<open>hits / total * 100\<close> computes, 33.33333333333333.
\<close>

theorem hit_rate_is_rounded:
  "cache_run ttl_store (CacheManager_new 3 60) cache_history = Inr cm_after_history
   \<and> hits cm_after_history = 1 \<and> misses cm_after_history = 2
   \<and> hit_rate_percent (get_stats ttl_store cm_after_history 4)
       = 2345390243441541 / 70368744177664
   \<and> hit_rate_percent (get_stats ttl_store cm_after_history 4) \<noteq>
       of_int (hits cm_after_history)
         / of_int (hits cm_after_history + misses cm_after_history) * 100
   \<and> hit_rate_percent (get_stats ttl_store cm_after_history 4) \<noteq>
       float_mul (int_truediv (hits cm_after_history)
         (hits cm_after_history + misses cm_after_history)) 100"
  using cache_history_run third_rate third_rate_rounded
  by (simp add: cm_after_history_def get_stats_def Let_def)

text \<open>
  Claim C5, amended. Over any store, after a sequence of \<^verbatim>\<open>get\<close> and \<^verbatim>\<open>set\<close> calls
  on a fresh manager in which no call raised, \<open>hits + misses\<close> is the number of
  \<^verbatim>\<open>get\<close> calls; \<^verbatim>\<open>get_stats\<close> reports \<open>total_requests = hits + misses\<close> and a
  \<open>hit_rate_percent\<close> that is the float \<^verbatim>\<open>hits / (hits + misses) * 100\<close> rounded to two
  decimal places (the float nearest to a multiple of one hundredth that lies within
  0.005 of that float), or 0 when \<open>hits + misses\<close> is 0; and it reports the counters as
  they are. \<^verbatim>\<open>get_stats\<close> only reads the manager: it returns the statistics and no
  changed manager.
\<close>

theorem counters_and_hit_rate:
  assumes "cache_run S (CacheManager_init store) ops = Inr cm"
  shows "hits cm + misses cm = int (length (filter is_get ops))
     \<and> total_requests (get_stats S cm now) = hits cm + misses cm
     \<and> hit_rate_percent (get_stats S cm now) =
         (if hits cm + misses cm = 0 then 0
          else py_round2 (float_mul (int_truediv (hits cm) (hits cm + misses cm)) 100))
     \<and> (\<exists>k. hit_rate_percent (get_stats S cm now) = fl (of_int k / 100)
           \<and> \<bar>of_int k / 100 -
                (if hits cm + misses cm = 0 then 0
                 else float_mul (int_truediv (hits cm) (hits cm + misses cm)) 100)\<bar>
               \<le> 1 / 200)
     \<and> stat_hits (get_stats S cm now) = hits cm
     \<and> stat_misses (get_stats S cm now) = misses cm
     \<and> stat_errors (get_stats S cm now) = errors cm"
proof -
  let ?rate = "if hits cm + misses cm = 0 then 0
       else float_mul (int_truediv (hits cm) (hits cm + misses cm)) 100"
  from cache_run_counters [OF assms]
  have c: "hits cm + misses cm = int (length (filter is_get ops))"
    and nn: "0 \<le> hits cm" "0 \<le> misses cm"
    by (simp_all add: CacheManager_init_def)
  have p: "hit_rate_percent (get_stats S cm now) = py_round2 ?rate"
    using nn by (auto simp: get_stats_def Let_def)
  then have r: "hit_rate_percent (get_stats S cm now) =
         (if hits cm + misses cm = 0 then 0
          else py_round2 (float_mul (int_truediv (hits cm) (hits cm + misses cm)) 100))"
    by (simp add: py_round2_zero)
  have n: "\<exists>k. hit_rate_percent (get_stats S cm now) = fl (of_int k / 100)
           \<and> \<bar>of_int k / 100 - ?rate\<bar> \<le> 1 / 200"
    unfolding p by (rule py_round2_hundredth)
  have s: "total_requests (get_stats S cm now) = hits cm + misses cm"
    "stat_hits (get_stats S cm now) = hits cm"
    "stat_misses (get_stats S cm now) = misses cm"
    "stat_errors (get_stats S cm now) = errors cm"
    by (simp_all add: get_stats_def Let_def)
  from c r n s show ?thesis by blast
qed

theorem counters_and_hit_rate_witness:
  "cache_run ttl_store (CacheManager_init (TTLCache_init 3 60)) cache_history
     = Inr cm_after_history
   \<and> hits cm_after_history + misses cm_after_history
       = int (length (filter is_get cache_history))
   \<and> int (length (filter is_get cache_history)) = 3
   \<and> total_requests (get_stats ttl_store cm_after_history 4) = 3
   \<and> hit_rate_percent (get_stats ttl_store cm_after_history 4)
       = 2345390243441541 / 70368744177664"
proof -
  have h: "cache_run ttl_store (CacheManager_init (TTLCache_init 3 60)) cache_history
     = Inr cm_after_history"
    using cache_history_run by (simp add: CacheManager_new_def)
  have n: "int (length (filter is_get cache_history)) = 3"
    by (simp add: cache_history_def)
  have v: "hits cm_after_history = 1" "misses cm_after_history = 2"
    by (simp_all add: cm_after_history_def)
  note c = counters_and_hit_rate [OF h, of 4]
  from c have 1: "hits cm_after_history + misses cm_after_history
       = int (length (filter is_get cache_history))"
    by blast
  from c have 2: "total_requests (get_stats ttl_store cm_after_history 4)
       = hits cm_after_history + misses cm_after_history"
    by blast
  from c have "hit_rate_percent (get_stats ttl_store cm_after_history 4) =
         (if hits cm_after_history + misses cm_after_history = 0 then 0
          else py_round2 (float_mul (int_truediv (hits cm_after_history)
            (hits cm_after_history + misses cm_after_history)) 100))"
    by blast
  then have 3: "hit_rate_percent (get_stats ttl_store cm_after_history 4)
       = 2345390243441541 / 70368744177664"
    by (simp add: v third_rate_rounded)
  from h n 1 2 3 show ?thesis by simp
qed

lemma set_tl_subset: "set (tl xs) \<subseteq> set xs"
  by (cases xs) auto

lemma map_of_remove_key: "map_of (remove_key key es) key = None"
  by (induction es) (auto simp: remove_key_def)

lemma map_of_tl_None: "map_of es key = None \<Longrightarrow> map_of (tl es) key = None"
  by (cases es) (auto split: if_splits)

lemma ttl_set_fields:
  "maxsize (snd (ttl_set c key v now)) = maxsize c \<and> ttl (snd (ttl_set c key v now)) = ttl c"
  by (simp add: ttl_set_def Let_def)

lemma ttl_set_ok:
  assumes "1 \<le> maxsize c"
  shows "\<exists>es1. ttl_set c key v now =
            (Inr (), c\<lparr>entries := es1 @ [(key, v, now + real_of_int (ttl c))]\<rparr>)
          \<and> map_of es1 key = None
          \<and> set es1 \<subseteq> set (entries c)
          \<and> (1 + int (length es1) \<le> maxsize c \<or> length es1 < length (entries c))"
proof -
  let ?es = "expire now (entries c)"
  define es1 where "es1 = (if map_of ?es key \<noteq> None then remove_key key ?es
                    else if maxsize c \<le> int (length ?es) then tl ?es else ?es)"
  have 1: "ttl_set c key v now =
            (Inr (), c\<lparr>entries := es1 @ [(key, v, now + real_of_int (ttl c))]\<rparr>)"
    using assms by (simp add: ttl_set_def es1_def Let_def)
  have 2: "map_of es1 key = None"
  proof (cases "map_of ?es key = None")
    case True
    then show ?thesis by (simp add: es1_def map_of_tl_None)
  next
    case False
    then have "es1 = remove_key key ?es" unfolding es1_def by (rule if_P)
    then show ?thesis by (simp only: map_of_remove_key)
  qed
  have sub: "set ?es \<subseteq> set (entries c)" by (auto simp: expire_def)
  have "set es1 \<subseteq> set ?es"
    using set_tl_subset [of ?es] by (auto simp: es1_def remove_key_def)
  with sub have 3: "set es1 \<subseteq> set (entries c)" by blast
  have le: "length ?es \<le> length (entries c)" by (simp add: expire_def)
  have 4: "1 + int (length es1) \<le> maxsize c \<or> length es1 < length (entries c)"
  proof (cases "map_of ?es key \<noteq> None")
    case True
    then obtain x where "(key, x) \<in> set ?es" by (auto dest: map_of_SomeD)
    then have "length (remove_key key ?es) < length ?es"
      unfolding remove_key_def by (intro length_filter_less [of "(key, x)"]) auto
    with True le show ?thesis by (simp add: es1_def)
  next
    case False
    show ?thesis
    proof (cases "maxsize c \<le> int (length ?es)")
      case True
      with assms have "?es \<noteq> []" by auto
      then have "length (tl ?es) < length ?es" by simp
      with False True le show ?thesis by (simp add: es1_def)
    next
      case F2: False
      with False show ?thesis by (simp add: es1_def)
    qed
  qed
  from 1 2 3 4 show ?thesis by blast
qed

lemma ttl_set_capacity:
  assumes "0 \<le> maxsize c" "int (length (entries c)) \<le> maxsize c"
  shows "int (length (entries (snd (ttl_set c key v now)))) \<le> maxsize c"
proof (cases "1 \<le> maxsize c")
  case True
  from ttl_set_ok [OF True, of key v now] obtain es1 where
    "ttl_set c key v now = (Inr (), c\<lparr>entries := es1 @ [(key, v, now + real_of_int (ttl c))]\<rparr>)"
    "1 + int (length es1) \<le> maxsize c \<or> length es1 < length (entries c)"
    by blast
  with assms(2) show ?thesis by auto
next
  case False
  with assms show ?thesis by (simp add: ttl_set_def)
qed

lemma CacheManager_set_ttl_cache:
  "cache (snd (CacheManager_set ttl_store cm key v now)) = snd (ttl_set (cache cm) key v now)"
  by (simp add: CacheManager_set_def ttl_store_def split: prod.splits sum.splits)

lemma set_calls_snoc:
  "set_calls cm (calls @ [(key, v, now)])
     = snd (CacheManager_set ttl_store (set_calls cm calls) key v now)"
  by (simp add: set_calls_def)

lemma set_calls_inv:
  assumes "0 \<le> m"
  shows "maxsize (cache (set_calls (CacheManager_new m t) calls)) = m
     \<and> ttl (cache (set_calls (CacheManager_new m t) calls)) = t
     \<and> int (length (entries (cache (set_calls (CacheManager_new m t) calls)))) \<le> m"
proof (induction calls rule: rev_induct)
  case Nil
  show ?case using assms
    by (simp add: set_calls_def CacheManager_new_def CacheManager_init_def TTLCache_init_def)
next
  case (snoc call calls)
  obtain key v now where call: "call = (key, v, now)" by (cases call) auto
  let ?c = "cache (set_calls (CacheManager_new m t) calls)"
  from snoc assms have "0 \<le> maxsize ?c" "int (length (entries ?c)) \<le> maxsize ?c" by simp_all
  from ttl_set_capacity [OF this, of key v now] snoc show ?case
    by (simp add: call set_calls_snoc CacheManager_set_ttl_cache ttl_set_fields)
qed

lemma CacheManager_set_ttl_ok:
  assumes "CacheManager_set ttl_store cm key v t = (Inr u, cm1)"
  shows "1 \<le> maxsize (cache cm) \<and> cm1 = cm\<lparr>cache := snd (ttl_set (cache cm) key v t)\<rparr>"
  using assms
  by (auto simp: CacheManager_set_def ttl_store_def ttl_set_def Let_def
      split: prod.splits sum.splits if_splits)

lemma CacheManager_get_ttl:
  assumes "map_of (entries (cache cm)) key = Some (v, expiry)"
  shows "fst (CacheManager_get ttl_store cm key now) = Inr (if now < expiry then v else PyNone)"
    and "\<not> now < expiry \<Longrightarrow>
      misses (snd (CacheManager_get ttl_store cm key now)) = misses cm + 1
      \<and> hits (snd (CacheManager_get ttl_store cm key now)) = hits cm"
    and "v = PyNone \<Longrightarrow>
      misses (snd (CacheManager_get ttl_store cm key now)) = misses cm + 1
      \<and> hits (snd (CacheManager_get ttl_store cm key now)) = hits cm"
  using assms
  by (simp_all add: CacheManager_get_def ttl_store_def ttl_get_def)

lemma stored_after_set:
  assumes "CacheManager_set ttl_store cm key v t = (Inr u, cm1)"
  shows "map_of (entries (cache cm1)) key = Some (v, t + real_of_int (ttl (cache cm)))"
    and "hits cm1 = hits cm" and "misses cm1 = misses cm"
proof -
  from CacheManager_set_ttl_ok [OF assms]
  have m: "1 \<le> maxsize (cache cm)" and c: "cm1 = cm\<lparr>cache := snd (ttl_set (cache cm) key v t)\<rparr>"
    by simp_all
  from ttl_set_ok [OF m, of key v t] obtain es1 where
    "ttl_set (cache cm) key v t =
       (Inr (), (cache cm)\<lparr>entries := es1 @ [(key, v, t + real_of_int (ttl (cache cm)))]\<rparr>)"
    "map_of es1 key = None"
    by blast
  then show "map_of (entries (cache cm1)) key = Some (v, t + real_of_int (ttl (cache cm)))"
    by (simp add: c map_add_def)
  show "hits cm1 = hits cm" "misses cm1 = misses cm" by (simp_all add: c)
qed

text \<open>
  Claim C3. Over the time-expiring store, when \<^verbatim>\<open>set(key, value)\<close> at time \<open>t\<close>
  succeeds, a \<^verbatim>\<open>get(key)\<close> that follows it at a time strictly before \<open>t + ttl\<close> returns
  the value, and one at or after \<open>t + ttl\<close> returns \<^verbatim>\<open>None\<close> and is counted a miss,
  not a hit.
\<close>

theorem set_then_get_expiry:
  assumes "CacheManager_set ttl_store cm key v t = (Inr u, cm1)"
  shows "(t' < t + real_of_int (ttl (cache cm)) \<longrightarrow>
            fst (CacheManager_get ttl_store cm1 key t') = Inr v)
     \<and> (t + real_of_int (ttl (cache cm)) \<le> t' \<longrightarrow>
            fst (CacheManager_get ttl_store cm1 key t') = Inr PyNone
          \<and> misses (snd (CacheManager_get ttl_store cm1 key t')) = misses cm1 + 1
          \<and> hits (snd (CacheManager_get ttl_store cm1 key t')) = hits cm1)"
proof -
  note s = stored_after_set(1) [OF assms]
  show ?thesis
    using CacheManager_get_ttl(1) [OF s, of t'] CacheManager_get_ttl(2) [OF s, of t']
    by auto
qed

theorem set_then_get_expiry_witness:
  "CacheManager_set ttl_store (CacheManager_new 10 1) ''a'' (PyInt 1) 0 = (Inr (), cm_a)
   \<and> (1 / 2 :: real) < 0 + real_of_int (ttl (cache (CacheManager_new 10 1)))
   \<and> fst (CacheManager_get ttl_store cm_a ''a'' (1 / 2)) = Inr (PyInt 1)
   \<and> 0 + real_of_int (ttl (cache (CacheManager_new 10 1))) \<le> (3 / 2 :: real)
   \<and> fst (CacheManager_get ttl_store cm_a ''a'' (3 / 2)) = Inr PyNone
   \<and> misses (snd (CacheManager_get ttl_store cm_a ''a'' (3 / 2))) = 1"
proof -
  have h: "CacheManager_set ttl_store (CacheManager_new 10 1) ''a'' (PyInt 1) 0 = (Inr (), cm_a)"
    by (simp add: CacheManager_new_def CacheManager_init_def TTLCache_init_def cm_a_def
        CacheManager_set_def ttl_store_def ttl_set_def expire_def)
  have t: "ttl (cache (CacheManager_new 10 1)) = 1"
    by (simp add: CacheManager_new_def CacheManager_init_def TTLCache_init_def)
  have b: "(1 / 2 :: real) < 0 + real_of_int (ttl (cache (CacheManager_new 10 1)))"
    "0 + real_of_int (ttl (cache (CacheManager_new 10 1))) \<le> (3 / 2 :: real)"
    by (simp_all add: t)
  from set_then_get_expiry [OF h, of "1 / 2"] b
  have 1: "fst (CacheManager_get ttl_store cm_a ''a'' (1 / 2)) = Inr (PyInt 1)"
    by blast
  from set_then_get_expiry [OF h, of "3 / 2"] b
  have 2: "fst (CacheManager_get ttl_store cm_a ''a'' (3 / 2)) = Inr PyNone
      \<and> misses (snd (CacheManager_get ttl_store cm_a ''a'' (3 / 2))) = misses cm_a + 1"
    by blast
  have "misses cm_a = 0" by (simp add: cm_a_def)
  with h b 1 2 show ?thesis by simp
qed

text \<open>
  Against claim C4. A manager built with capacity \<open>-1\<close> holds no entry after a
  \<^verbatim>\<open>set\<close> call, which is more than its capacity; \<^verbatim>\<open>get_stats\<close> reports
  \<open>current_size = 0\<close> and \<open>max_size = -1\<close>. And a manager built with capacity \<open>0\<close> is at
  capacity while empty: a \<^verbatim>\<open>set\<close> of a new key raises \<^verbatim>\<open>CacheError\<close>, and nothing is
  evicted or inserted.
\<close>

theorem capacity_claim_violations:
  "entries (cache (set_calls (CacheManager_new (- 1) 60) [(''k'', PyInt 1, 0)])) = []
   \<and> max_size (get_stats ttl_store
        (set_calls (CacheManager_new (- 1) 60) [(''k'', PyInt 1, 0)]) 1) = - 1
   \<and> \<not> current_size (get_stats ttl_store
          (set_calls (CacheManager_new (- 1) 60) [(''k'', PyInt 1, 0)]) 1)
        \<le> max_size (get_stats ttl_store
          (set_calls (CacheManager_new (- 1) 60) [(''k'', PyInt 1, 0)]) 1)
   \<and> int (length (entries (cache (CacheManager_new 0 60))))
       = maxsize (cache (CacheManager_new 0 60))
   \<and> map_of (entries (cache (CacheManager_new 0 60))) ''k'' = None
   \<and> fst (CacheManager_set ttl_store (CacheManager_new 0 60) ''k'' (PyInt 1) 0)
       = Inl (CacheError ''Failed to set cache key k: value too large'')
   \<and> entries (cache (snd (CacheManager_set ttl_store (CacheManager_new 0 60)
        ''k'' (PyInt 1) 0))) = []"
  by (simp add: set_calls_def CacheManager_new_def CacheManager_init_def TTLCache_init_def
      CacheManager_set_def ttl_store_def ttl_set_def ttl_len_def get_stats_def Let_def)

text \<open>
  Claim C4, amended. On a manager built with capacity \<open>m \<ge> 0\<close> over the time-expiring
  store, after every sequence of \<^verbatim>\<open>set\<close> calls the store holds at most \<open>m\<close> entries,
  and \<^verbatim>\<open>get_stats\<close> reports \<open>current_size \<le> max_size\<close>. On a manager built with
  capacity \<open>m \<ge> 1\<close>, when a further \<^verbatim>\<open>set\<close> brings a new key while the store is at
  capacity, holding \<open>m\<close> unexpired entries, the call succeeds, the oldest entry is
  evicted, the new entry is added with expiry \<open>now + ttl\<close>, and the store holds \<open>m\<close>
  entries again.
\<close>

theorem capacity_invariant:
  assumes "0 \<le> m"
  shows "int (length (entries (cache (set_calls (CacheManager_new m t) calls)))) \<le> m
     \<and> current_size (get_stats ttl_store (set_calls (CacheManager_new m t) calls) now)
         \<le> max_size (get_stats ttl_store (set_calls (CacheManager_new m t) calls) now)
     \<and> (map_of (expire now (entries (cache (set_calls (CacheManager_new m t) calls)))) key = None
          \<and> int (length (expire now (entries (cache (set_calls (CacheManager_new m t) calls))))) = m
          \<and> 1 \<le> m \<longrightarrow>
         fst (CacheManager_set ttl_store (set_calls (CacheManager_new m t) calls) key v now)
           = Inr ()
         \<and> entries (cache (snd (CacheManager_set ttl_store
               (set_calls (CacheManager_new m t) calls) key v now)))
           = tl (expire now (entries (cache (set_calls (CacheManager_new m t) calls))))
               @ [(key, v, now + real_of_int t)]
         \<and> int (length (entries (cache (snd (CacheManager_set ttl_store
               (set_calls (CacheManager_new m t) calls) key v now))))) = m)"
proof -
  let ?cm = "set_calls (CacheManager_new m t) calls"
  note inv = set_calls_inv [OF assms, of t calls]
  then have 1: "int (length (entries (cache ?cm))) \<le> m" by simp
  have 2: "current_size (get_stats ttl_store ?cm now) \<le> max_size (get_stats ttl_store ?cm now)"
    using inv by (simp add: get_stats_def Let_def ttl_store_def ttl_len_def)
  have 3: "fst (CacheManager_set ttl_store ?cm key v now) = Inr ()
         \<and> entries (cache (snd (CacheManager_set ttl_store ?cm key v now)))
           = tl (expire now (entries (cache ?cm))) @ [(key, v, now + real_of_int t)]
         \<and> int (length (entries (cache (snd (CacheManager_set ttl_store ?cm key v now))))) = m"
    if a: "map_of (expire now (entries (cache ?cm))) key = None"
      and b: "int (length (expire now (entries (cache ?cm)))) = m" and c: "1 \<le> m"
  proof -
    from b c have ne: "expire now (entries (cache ?cm)) \<noteq> []" by auto
    have e: "ttl_set (cache ?cm) key v now = (Inr (), (cache ?cm)\<lparr>entries :=
        tl (expire now (entries (cache ?cm))) @ [(key, v, now + real_of_int t)]\<rparr>)"
      using a b c inv by (simp add: ttl_set_def Let_def)
    have len: "int (length (tl (expire now (entries (cache ?cm))) @ [(key, v, now + real_of_int t)])) = m"
      using b ne by simp
    show ?thesis
      using len by (simp add: CacheManager_set_def ttl_store_def e)
  qed
  from 1 2 3 show ?thesis by blast
qed


theorem capacity_invariant_witness:
  "(0::int) \<le> 3
   \<and> map_of (expire 3 (entries (cache (set_calls (CacheManager_new 3 60) three_sets)))) ''k4''
       = None
   \<and> int (length (expire 3 (entries (cache (set_calls (CacheManager_new 3 60) three_sets))))) = 3
   \<and> (1::int) \<le> 3
   \<and> int (length (entries (cache (set_calls (CacheManager_new 3 60) three_sets)))) \<le> 3
   \<and> entries (cache (snd (CacheManager_set ttl_store
         (set_calls (CacheManager_new 3 60) three_sets) ''k4'' (PyInt 4) 3)))
       = [(''k2'', PyInt 2, 61), (''k3'', PyInt 3, 62), (''k4'', PyInt 4, 63)]"
proof -
  let ?cm = "set_calls (CacheManager_new 3 60) three_sets"
  have e: "entries (cache ?cm) = [(''k1'', PyInt 1, 60), (''k2'', PyInt 2, 61), (''k3'', PyInt 3, 62)]"
    by (simp add: set_calls_def three_sets_def CacheManager_new_def CacheManager_init_def
        TTLCache_init_def CacheManager_set_def ttl_store_def ttl_set_def expire_def)
  have h0: "(0::int) \<le> 3" by simp
  have h1: "map_of (expire 3 (entries (cache ?cm))) ''k4'' = None"
    by (simp add: e expire_def)
  have h2: "int (length (expire 3 (entries (cache ?cm)))) = 3"
    by (simp add: e expire_def)
  have h3: "(1::int) \<le> 3" by simp
  note c = capacity_invariant [OF h0, of 60 three_sets 3 "''k4''" "PyInt 4"]
  from c have l: "int (length (entries (cache ?cm))) \<le> 3" by blast
  from c h1 h2 h3 have "entries (cache (snd (CacheManager_set ttl_store ?cm ''k4'' (PyInt 4) 3)))
      = tl (expire 3 (entries (cache ?cm))) @ [(''k4'', PyInt 4, 3 + real_of_int 60)]"
    by blast
  then have v: "entries (cache (snd (CacheManager_set ttl_store ?cm ''k4'' (PyInt 4) 3)))
      = [(''k2'', PyInt 2, 61), (''k3'', PyInt 3, 62), (''k4'', PyInt 4, 63)]"
    by (simp add: e expire_def)
  from h0 h1 h2 h3 l v show ?thesis by blast
qed

lemma async_wrapper_eq: "async_wrapper = sync_wrapper"
  by (intro ext) (simp add: async_wrapper_def sync_wrapper_def)

lemma sync_wrapper_hit:
  assumes "CacheManager_get S (manager env)
             (key_prefix @ '':'' @ func_name @ '':'' @ build_key args kwargs) t_get = (Inr v, cm1)"
    and "v \<noteq> PyNone"
  shows "sync_wrapper S key_prefix func_name func args kwargs t_get t_set env
           = (Inr v, env\<lparr>manager := cm1\<rparr>)"
  using assms by (simp add: sync_wrapper_def)

lemma sync_wrapper_fetch_fails:
  assumes "CacheManager_get S (manager env)
             (key_prefix @ '':'' @ func_name @ '':'' @ build_key args kwargs) t_get
           = (Inr PyNone, cm1)"
    and "func args kwargs (world env) = (Inl e, w1)"
  shows "sync_wrapper S key_prefix func_name func args kwargs t_get t_set env
           = (Inl e, env\<lparr>manager := cm1, world := w1, fetch_calls := fetch_calls env + 1\<rparr>)"
  using assms by (simp add: sync_wrapper_def)

lemma set_remove_key: "set (remove_key key es) \<subseteq> set es"
  by (auto simp: remove_key_def)

lemma CacheManager_get_ttl_total:
  "\<exists>v es. CacheManager_get ttl_store cm key now
      = (Inr v, cm\<lparr>cache := (cache cm)\<lparr>entries := es\<rparr>,
                    hits := hits cm + (if v \<noteq> PyNone then 1 else 0),
                    misses := misses cm + (if v \<noteq> PyNone then 0 else 1)\<rparr>)
     \<and> set es \<subseteq> set (entries (cache cm))
     \<and> (v \<noteq> PyNone \<longrightarrow> (\<exists>x. map_of (entries (cache cm)) key = Some (v, x) \<and> now < x))"
proof (cases "map_of (entries (cache cm)) key")
  case None
  then have "CacheManager_get ttl_store cm key now
      = (Inr PyNone, cm\<lparr>cache := (cache cm)\<lparr>entries := entries (cache cm)\<rparr>,
            hits := hits cm + 0, misses := misses cm + 1\<rparr>)"
    by (simp add: CacheManager_get_def ttl_store_def ttl_get_def)
  then show ?thesis by (intro exI [of _ PyNone] exI [of _ "entries (cache cm)"]) simp
next
  case (Some p)
  obtain v x where p: "p = (v, x)" by (cases p)
  from Some p have mem: "(key, v, x) \<in> set (entries (cache cm))"
    by (auto dest: map_of_SomeD)
  show ?thesis
  proof (cases "now < x")
    case True
    let ?es = "remove_key key (entries (cache cm)) @ [(key, v, x)]"
    have "CacheManager_get ttl_store cm key now
      = (Inr v, cm\<lparr>cache := (cache cm)\<lparr>entries := ?es\<rparr>,
                    hits := hits cm + (if v \<noteq> PyNone then 1 else 0),
                    misses := misses cm + (if v \<noteq> PyNone then 0 else 1)\<rparr>)"
      using Some p True by (simp add: CacheManager_get_def ttl_store_def ttl_get_def)
    moreover have "set ?es \<subseteq> set (entries (cache cm))"
      using mem set_remove_key [of key "entries (cache cm)"] by auto
    ultimately show ?thesis using Some p True
      by (intro exI [of _ v] exI [of _ ?es]) blast
  next
    case False
    let ?es = "remove_key key (entries (cache cm))"
    have "CacheManager_get ttl_store cm key now
      = (Inr PyNone, cm\<lparr>cache := (cache cm)\<lparr>entries := ?es\<rparr>,
            hits := hits cm + 0, misses := misses cm + 1\<rparr>)"
      using Some p False by (simp add: CacheManager_get_def ttl_store_def ttl_get_def)
    then show ?thesis using set_remove_key [of key "entries (cache cm)"]
      by (intro exI [of _ PyNone] exI [of _ ?es]) simp
  qed
qed


lemma CacheManager_set_ttl_fail:
  assumes "CacheManager_set ttl_store cm key v t = (Inl e, cm1)"
  shows "cache cm1 = cache cm"
  using assms
  by (auto simp: CacheManager_set_def ttl_store_def ttl_set_def Let_def
      split: prod.splits sum.splits if_splits)

lemma sync_wrapper_failure_stores_nothing:
  assumes "fst (sync_wrapper ttl_store key_prefix func_name func args kwargs t_get t_set env)
             = Inl e"
  shows "set (entries (cache (manager (snd (sync_wrapper ttl_store key_prefix func_name func
            args kwargs t_get t_set env)))))
         \<subseteq> set (entries (cache (manager env)))"
proof -
  let ?ck = "key_prefix @ '':'' @ func_name @ '':'' @ build_key args kwargs"
  from CacheManager_get_ttl_total [of "manager env" ?ck t_get]
  obtain v es cm1 where g: "CacheManager_get ttl_store (manager env) ?ck t_get = (Inr v, cm1)"
    and c: "entries (cache cm1) = es" and sub: "set es \<subseteq> set (entries (cache (manager env)))"
    by force
  show ?thesis
  proof (cases "v = PyNone")
    case False
    with g assms show ?thesis by (simp add: sync_wrapper_def)
  next
    case True
    obtain r w1 where f: "func args kwargs (world env) = (r, w1)" by (cases "func args kwargs (world env)")
    show ?thesis
    proof (cases r)
      case (Inl e1)
      with g True f c sub show ?thesis by (simp add: sync_wrapper_def)
    next
      case (Inr result)
      obtain o2 cm2 where s: "CacheManager_set ttl_store cm1 ?ck result t_set = (o2, cm2)"
        by (cases "CacheManager_set ttl_store cm1 ?ck result t_set")
      show ?thesis
      proof (cases o2)
        case (Inl e2)
        with s have "cache cm2 = cache cm1" by (auto dest: CacheManager_set_ttl_fail)
        with g True f Inr s Inl c sub show ?thesis by (simp add: sync_wrapper_def)
      next
        case I2: (Inr u)
        with g True f Inr s assms show ?thesis by (simp add: sync_wrapper_def)
      qed
    qed
  qed
qed


lemma sync_wrapper_fetch_ok:
  assumes "CacheManager_get S (manager env)
             (key_prefix @ '':'' @ func_name @ '':'' @ build_key args kwargs) t_get
           = (Inr PyNone, cm1)"
    and "func args kwargs (world env) = (Inr r, w1)"
    and "CacheManager_set S cm1
             (key_prefix @ '':'' @ func_name @ '':'' @ build_key args kwargs) r t_set
           = (Inr u, cm2)"
  shows "sync_wrapper S key_prefix func_name func args kwargs t_get t_set env
           = (Inr r, env\<lparr>manager := cm2, world := w1, fetch_calls := fetch_calls env + 1\<rparr>)"
  using assms by (simp add: sync_wrapper_def)

text \<open>
  Claim C6. For both wrappers, over any store and for any wrapped function: when the
  lookup of the call's key returns a value other than \<^verbatim>\<open>None\<close>, the wrapper returns it
  and leaves the world and the count of calls to the wrapped function as they were;
  when the lookup misses, the function is called once, and if it raises, the wrapper
  raises that same exception and the manager is the one the lookup left, with no call
  of \<^verbatim>\<open>set\<close>; if it returns, the result is stored and returned. Over the
  time-expiring store, a wrapper call that raises leaves no entry in the store that was
  not there before.
\<close>

theorem cached_wrapper_hit_and_failure:
  fixes S :: "'s store_ops" and env :: "('s, 'w) env" and tenv :: "(ttl_cache, 'w) env"
  shows
    "(CacheManager_get S (manager env)
          (key_prefix @ '':'' @ func_name @ '':'' @ build_key args kwargs) t_get = (Inr v, cm1)
        \<and> v \<noteq> PyNone \<longrightarrow>
        sync_wrapper S key_prefix func_name func args kwargs t_get t_set env
          = (Inr v, env\<lparr>manager := cm1\<rparr>)
        \<and> async_wrapper S key_prefix func_name func args kwargs t_get t_set env
          = (Inr v, env\<lparr>manager := cm1\<rparr>))
     \<and> (CacheManager_get S (manager env)
          (key_prefix @ '':'' @ func_name @ '':'' @ build_key args kwargs) t_get
            = (Inr PyNone, cm1)
        \<and> func args kwargs (world env) = (Inl e, w1) \<longrightarrow>
        sync_wrapper S key_prefix func_name func args kwargs t_get t_set env
          = (Inl e, env\<lparr>manager := cm1, world := w1, fetch_calls := fetch_calls env + 1\<rparr>)
        \<and> async_wrapper S key_prefix func_name func args kwargs t_get t_set env
          = (Inl e, env\<lparr>manager := cm1, world := w1, fetch_calls := fetch_calls env + 1\<rparr>))
     \<and> (CacheManager_get S (manager env)
          (key_prefix @ '':'' @ func_name @ '':'' @ build_key args kwargs) t_get
            = (Inr PyNone, cm1)
        \<and> func args kwargs (world env) = (Inr r, w1)
        \<and> CacheManager_set S cm1
          (key_prefix @ '':'' @ func_name @ '':'' @ build_key args kwargs) r t_set = (Inr u, cm2)
        \<longrightarrow>
        sync_wrapper S key_prefix func_name func args kwargs t_get t_set env
          = (Inr r, env\<lparr>manager := cm2, world := w1, fetch_calls := fetch_calls env + 1\<rparr>)
        \<and> async_wrapper S key_prefix func_name func args kwargs t_get t_set env
          = (Inr r, env\<lparr>manager := cm2, world := w1, fetch_calls := fetch_calls env + 1\<rparr>))
     \<and> (fst (sync_wrapper ttl_store key_prefix func_name func args kwargs t_get t_set tenv)
            = Inl e' \<longrightarrow>
        set (entries (cache (manager (snd (sync_wrapper ttl_store key_prefix func_name func
               args kwargs t_get t_set tenv)))))
          \<subseteq> set (entries (cache (manager tenv))))"
proof (intro conjI impI; (elim conjE)?)
  let ?ck = "key_prefix @ '':'' @ func_name @ '':'' @ build_key args kwargs"
  {
    assume "CacheManager_get S (manager env) ?ck t_get = (Inr v, cm1)" "v \<noteq> PyNone"
    then show "sync_wrapper S key_prefix func_name func args kwargs t_get t_set env
        = (Inr v, env\<lparr>manager := cm1\<rparr>)"
      by (rule sync_wrapper_hit)
    then show "async_wrapper S key_prefix func_name func args kwargs t_get t_set env
        = (Inr v, env\<lparr>manager := cm1\<rparr>)"
      by (simp only: async_wrapper_eq)
  }
  {
    assume "CacheManager_get S (manager env) ?ck t_get = (Inr PyNone, cm1)"
      "func args kwargs (world env) = (Inl e, w1)"
    then show "sync_wrapper S key_prefix func_name func args kwargs t_get t_set env
        = (Inl e, env\<lparr>manager := cm1, world := w1, fetch_calls := fetch_calls env + 1\<rparr>)"
      by (rule sync_wrapper_fetch_fails)
    then show "async_wrapper S key_prefix func_name func args kwargs t_get t_set env
        = (Inl e, env\<lparr>manager := cm1, world := w1, fetch_calls := fetch_calls env + 1\<rparr>)"
      by (simp only: async_wrapper_eq)
  }
  {
    assume "CacheManager_get S (manager env) ?ck t_get = (Inr PyNone, cm1)"
      "func args kwargs (world env) = (Inr r, w1)"
      "CacheManager_set S cm1 ?ck r t_set = (Inr u, cm2)"
    then show "sync_wrapper S key_prefix func_name func args kwargs t_get t_set env
        = (Inr r, env\<lparr>manager := cm2, world := w1, fetch_calls := fetch_calls env + 1\<rparr>)"
      by (rule sync_wrapper_fetch_ok)
    then show "async_wrapper S key_prefix func_name func args kwargs t_get t_set env
        = (Inr r, env\<lparr>manager := cm2, world := w1, fetch_calls := fetch_calls env + 1\<rparr>)"
      by (simp only: async_wrapper_eq)
  }
  {
    assume "fst (sync_wrapper ttl_store key_prefix func_name func args kwargs t_get t_set tenv)
        = Inl e'"
    then show "set (entries (cache (manager (snd (sync_wrapper ttl_store key_prefix func_name
        func args kwargs t_get t_set tenv))))) \<subseteq> set (entries (cache (manager tenv)))"
      by (rule sync_wrapper_failure_stores_nothing)
  }
qed


theorem cached_wrapper_hit_and_failure_witness:
  "CacheManager_get ttl_store (manager warm_env)
      (''ticker'' @ '':'' @ ''get_ticker'' @ '':'' @
        build_key [PyStr ''BTC/USDT''] [(''exchange'', PyStr ''binance'')]) 1
     = (Inr (PyInt 42), (manager warm_env)\<lparr>hits := 1\<rparr>)
   \<and> PyInt 42 \<noteq> PyNone
   \<and> sync_wrapper ttl_store ''ticker'' ''get_ticker'' failing_fetch
        [PyStr ''BTC/USDT''] [(''exchange'', PyStr ''binance'')] 1 2 warm_env
     = (Inr (PyInt 42), warm_env\<lparr>manager := (manager warm_env)\<lparr>hits := 1\<rparr>\<rparr>)
   \<and> CacheManager_get ttl_store (manager fresh_env)
      (''ticker'' @ '':'' @ ''get_ticker'' @ '':'' @
        build_key [PyStr ''BTC/USDT''] [(''exchange'', PyStr ''binance'')]) 1
     = (Inr PyNone, (manager fresh_env)\<lparr>misses := 1\<rparr>)
   \<and> failing_fetch [PyStr ''BTC/USDT''] [(''exchange'', PyStr ''binance'')] (world fresh_env)
     = (Inl (ProviderError ''connection refused''), 1)
   \<and> sync_wrapper ttl_store ''ticker'' ''get_ticker'' failing_fetch
        [PyStr ''BTC/USDT''] [(''exchange'', PyStr ''binance'')] 1 2 fresh_env
     = (Inl (ProviderError ''connection refused''),
        fresh_env\<lparr>manager := (manager fresh_env)\<lparr>misses := 1\<rparr>, world := 1,
          fetch_calls := fetch_calls fresh_env + 1\<rparr>)
   \<and> entries (cache (manager (snd (sync_wrapper ttl_store ''ticker'' ''get_ticker''
        failing_fetch [PyStr ''BTC/USDT''] [(''exchange'', PyStr ''binance'')] 1 2 fresh_env))))
     = []
   \<and> set (entries (cache (manager (snd (sync_wrapper ttl_store ''ticker'' ''get_ticker''
        failing_fetch [PyStr ''BTC/USDT''] [(''exchange'', PyStr ''binance'')] 1 2 fresh_env)))))
     \<subseteq> set (entries (cache (manager fresh_env)))
   \<and> price_fetch [PyStr ''BTC/USDT''] [(''exchange'', PyStr ''binance'')] (world fresh_env)
     = (Inr (PyInt 42), 1)
   \<and> CacheManager_set ttl_store ((manager fresh_env)\<lparr>misses := 1\<rparr>)
      (''ticker'' @ '':'' @ ''get_ticker'' @ '':'' @
        build_key [PyStr ''BTC/USDT''] [(''exchange'', PyStr ''binance'')]) (PyInt 42) 2
     = (Inr (), (manager warm_env)\<lparr>misses := 1,
          cache := (cache (manager warm_env))\<lparr>entries :=
            [(''ticker:get_ticker:BTC/USDT:exchange=binance'', PyInt 42, 62)]\<rparr>\<rparr>)
   \<and> sync_wrapper ttl_store ''ticker'' ''get_ticker'' price_fetch
        [PyStr ''BTC/USDT''] [(''exchange'', PyStr ''binance'')] 1 2 fresh_env
     = (Inr (PyInt 42),
        fresh_env\<lparr>manager := (manager warm_env)\<lparr>misses := 1,
          cache := (cache (manager warm_env))\<lparr>entries :=
            [(''ticker:get_ticker:BTC/USDT:exchange=binance'', PyInt 42, 62)]\<rparr>\<rparr>,
          world := 1, fetch_calls := fetch_calls fresh_env + 1\<rparr>)"
proof -
  let ?args = "[PyStr ''BTC/USDT'']" and ?kw = "[(''exchange'', PyStr ''binance'')]"
  have k: "build_key ?args ?kw = ''BTC/USDT:exchange=binance''"
    by (simp add: build_key_def key_parts_def render_named_def)
  have h1: "CacheManager_get ttl_store (manager warm_env)
      (''ticker'' @ '':'' @ ''get_ticker'' @ '':'' @ build_key ?args ?kw) 1
     = (Inr (PyInt 42), (manager warm_env)\<lparr>hits := 1\<rparr>)"
    by (simp add: k warm_env_def CacheManager_get_def ttl_store_def ttl_get_def remove_key_def)
  have h2: "PyInt 42 \<noteq> PyNone" by simp
  have h3: "CacheManager_get ttl_store (manager fresh_env)
      (''ticker'' @ '':'' @ ''get_ticker'' @ '':'' @ build_key ?args ?kw) 1
     = (Inr PyNone, (manager fresh_env)\<lparr>misses := 1\<rparr>)"
    by (simp add: k fresh_env_def CacheManager_new_def CacheManager_init_def TTLCache_init_def
        CacheManager_get_def ttl_store_def ttl_get_def)
  have h4: "failing_fetch ?args ?kw (world fresh_env)
     = (Inl (ProviderError ''connection refused''), 1)"
    by (simp add: failing_fetch_def fresh_env_def)
  note hit = cached_wrapper_hit_and_failure [where S = ttl_store and env = warm_env
      and key_prefix = "''ticker''" and func_name = "''get_ticker''" and args = ?args
      and kwargs = ?kw and t_get = 1 and t_set = 2 and func = failing_fetch
      and v = "PyInt 42" and ?cm1.0 = "(manager warm_env)\<lparr>hits := 1\<rparr>"]
  from hit h1 h2 have c1: "sync_wrapper ttl_store ''ticker'' ''get_ticker'' failing_fetch
        ?args ?kw 1 2 warm_env
     = (Inr (PyInt 42), warm_env\<lparr>manager := (manager warm_env)\<lparr>hits := 1\<rparr>\<rparr>)"
    by blast
  note miss = cached_wrapper_hit_and_failure [where S = ttl_store and env = fresh_env
      and key_prefix = "''ticker''" and func_name = "''get_ticker''" and args = ?args
      and kwargs = ?kw and t_get = 1 and t_set = 2 and func = failing_fetch
      and e = "ProviderError ''connection refused''" and ?w1.0 = 1
      and ?cm1.0 = "(manager fresh_env)\<lparr>misses := 1\<rparr>"]
  from miss h3 h4 have c2: "sync_wrapper ttl_store ''ticker'' ''get_ticker'' failing_fetch
        ?args ?kw 1 2 fresh_env
     = (Inl (ProviderError ''connection refused''),
        fresh_env\<lparr>manager := (manager fresh_env)\<lparr>misses := 1\<rparr>, world := 1,
          fetch_calls := fetch_calls fresh_env + 1\<rparr>)"
    by blast
  have c3: "entries (cache (manager (snd (sync_wrapper ttl_store ''ticker'' ''get_ticker''
        failing_fetch ?args ?kw 1 2 fresh_env)))) = []"
    unfolding c2
    by (simp add: fresh_env_def CacheManager_new_def CacheManager_init_def TTLCache_init_def)
  from miss c2 have c4: "set (entries (cache (manager (snd (sync_wrapper ttl_store ''ticker''
        ''get_ticker'' failing_fetch ?args ?kw 1 2 fresh_env)))))
      \<subseteq> set (entries (cache (manager fresh_env)))"
    by (metis fst_conv)
  let ?cm2 = "(manager warm_env)\<lparr>misses := 1,
          cache := (cache (manager warm_env))\<lparr>entries :=
            [(''ticker:get_ticker:BTC/USDT:exchange=binance'', PyInt 42, 62)]\<rparr>\<rparr>"
  have h5: "price_fetch ?args ?kw (world fresh_env) = (Inr (PyInt 42), 1)"
    by (simp add: price_fetch_def fresh_env_def)
  have h6: "CacheManager_set ttl_store ((manager fresh_env)\<lparr>misses := 1\<rparr>)
      (''ticker'' @ '':'' @ ''get_ticker'' @ '':'' @ build_key ?args ?kw) (PyInt 42) 2
     = (Inr (), ?cm2)"
    by (simp add: k fresh_env_def warm_env_def CacheManager_new_def CacheManager_init_def
        TTLCache_init_def CacheManager_set_def ttl_store_def ttl_set_def expire_def)
  note ok = cached_wrapper_hit_and_failure [where S = ttl_store and env = fresh_env
      and key_prefix = "''ticker''" and func_name = "''get_ticker''" and args = ?args
      and kwargs = ?kw and t_get = 1 and t_set = 2 and func = price_fetch
      and r = "PyInt 42" and ?w1.0 = 1 and u = "()"
      and ?cm1.0 = "(manager fresh_env)\<lparr>misses := 1\<rparr>" and ?cm2.0 = ?cm2]
  from ok h3 h5 h6 have c5: "sync_wrapper ttl_store ''ticker'' ''get_ticker'' price_fetch
        ?args ?kw 1 2 fresh_env
     = (Inr (PyInt 42), fresh_env\<lparr>manager := ?cm2, world := 1,
          fetch_calls := fetch_calls fresh_env + 1\<rparr>)"
    by blast
  from h1 h2 c1 h3 h4 c2 c3 c4 h5 h6 c5 show ?thesis by blast
qed






end
